theory Spec2Isabelle
  imports Main
begin

section \<open>The REST API of xo-server: values, errors and promises\<close>

text \<open>
  The module under verification is the class \<open>RestApi\<close>: an Express router mounted at
  \<open>/rest/v0\<close>, with an authentication middleware, two parameter handlers
  (\<open>collection\<close>, \<open>object\<close>) and eight terminal routes, and the helper
  \<open>sendObjects\<close> that renders lists.

  Property values of backend objects and of request bodies are strings, booleans,
  \<open>null\<close> and nested objects; numbers and arrays are left out. An absent property
  (\<open>undefined\<close>) is \<open>None\<close> in a map.
\<close>

datatype js_value = Str string | Bool bool | Null | Obj "string \<Rightarrow> js_value option"

type_synonym js_object = "string \<rightharpoonup> js_value"

text \<open>
  The errors the module tells apart: \<open>invalidCredentials\<close> and \<open>noSuchObject\<close>
  (with the id and type it was raised for) of \<open>xo-common/api-errors\<close>, a \<open>TypeError\<close> and
  a \<open>URIError\<close> of the runtime, and any other error.
\<close>

datatype js_error =
    Invalid_credentials
  | No_such_object string "string option"
  | Type_error string
  | URI_error string
  | Error string

text \<open>A promise is modelled by the way it settles.\<close>

datatype 'a promise = Fulfilled 'a | Rejected js_error

text \<open>
  \<open>await p\<close> on a promise continues with the value it is fulfilled with and throws the
  error it is rejected with.
\<close>

fun await_promise :: "'a promise \<Rightarrow> js_error + 'a" where
  "await_promise (Fulfilled v) = Inr v"
| "await_promise (Rejected e) = Inl e"

text \<open>
  \<open>await v\<close> on a value that is not a thenable continues with the value itself. An
  \<open>Array\<close> is not a thenable, whatever its elements are: the promises in it are neither
  waited for nor inspected.
\<close>

definition await_value :: "'a \<Rightarrow> js_error + 'a" where
  "await_value v = Inr v"

text \<open>String conversion of a property value in \<open>basePath + '/' + object.id\<close>.\<close>

fun to_string :: "js_value option \<Rightarrow> string" where
  "to_string None = ''undefined''"
| "to_string (Some (Str s)) = s"
| "to_string (Some (Bool b)) = (if b then ''true'' else ''false'')"
| "to_string (Some Null) = ''null''"
| "to_string (Some (Obj m)) = ''[object Object]''"

text \<open>\<open>String.prototype.split\<close> with a one-character separator.\<close>

fun split_str :: "char \<Rightarrow> string \<Rightarrow> string list" where
  "split_str sep [] = [[]]"
| "split_str sep (c # cs) =
     (if c = sep then [] # split_str sep cs
      else (case split_str sep cs of
              [] \<Rightarrow> [[c]]
            | w # ws \<Rightarrow> (c # w) # ws))"

text \<open>
  ASCII lower-casing. The collection ids are built with \<open>toLocaleLowerCase\<close>, which agrees
  with it on the type names of this module in every locale but the Turkic ones; and a
  route's regular expression compares ASCII letters without regard to case.
\<close>

definition to_lower_char :: "char \<Rightarrow> char" where
  "to_lower_char c =
     (case map_of (zip ''ABCDEFGHIJKLMNOPQRSTUVWXYZ'' ''abcdefghijklmnopqrstuvwxyz'') c of
        Some d \<Rightarrow> d
      | None \<Rightarrow> c)"

definition toLowerCase :: "string \<Rightarrow> string" where
  "toLowerCase s = map to_lower_char s"

text \<open>
  \<open>decodeURIComponent\<close>, on a string of ASCII characters, as the segments of a request
  path are. An escape \<open>%XX\<close> stands for one octet; it needs two hexadecimal digits.
  The octets of the escapes must be well-formed UTF-8: an octet below 128 alone, a
  leading octet followed by as many continuation octets as it announces, each an
  escape too, in the ranges that leave out overlong forms, surrogates and code points
  beyond 10FFFF. The result holds the decoded characters in UTF-8, as every string
  here. Anything else is a \<open>URIError\<close>.
\<close>

definition hex_digit :: "char \<Rightarrow> nat option" where
  "hex_digit c =
     map_of (zip ''0123456789abcdefABCDEF''
               [0, 1, 2, 3, 4, 5, 6, 7, 8, 9, 10, 11, 12, 13, 14, 15, 10, 11, 12, 13, 14, 15]) c"

datatype octet = Raw char | Escaped nat

fun unescape :: "string \<Rightarrow> octet list option" where
  "unescape (c # h # l # cs) =
     (if c = CHR ''%''
      then (case (hex_digit h, hex_digit l) of
              (Some a, Some b) \<Rightarrow> map_option ((#) (Escaped (16 * a + b))) (unescape cs)
            | _ \<Rightarrow> None)
      else map_option ((#) (Raw c)) (unescape (h # l # cs)))"
| "unescape (c # cs) =
     (if c = CHR ''%'' then None else map_option ((#) (Raw c)) (unescape cs))"
| "unescape [] = Some []"

text \<open>
  \<open>utf8 n (lo, hi) os\<close>: \<open>n\<close> continuation octets are still due, and the next one
  must lie between \<open>lo\<close> and \<open>hi\<close>.
\<close>

fun utf8 :: "nat \<Rightarrow> nat \<times> nat \<Rightarrow> octet list \<Rightarrow> string option" where
  "utf8 0 r [] = Some []"
| "utf8 (Suc n) r [] = None"
| "utf8 0 r (Raw c # os) = map_option ((#) c) (utf8 0 r os)"
| "utf8 (Suc n) r (Raw c # os) = None"
| "utf8 0 r (Escaped b # os) =
     (if b < 128 then map_option ((#) (char_of b)) (utf8 0 r os)
      else if 194 \<le> b \<and> b \<le> 223 then map_option ((#) (char_of b)) (utf8 1 (128, 191) os)
      else if b = 224 then map_option ((#) (char_of b)) (utf8 2 (160, 191) os)
      else if (225 \<le> b \<and> b \<le> 236) \<or> (238 \<le> b \<and> b \<le> 239)
        then map_option ((#) (char_of b)) (utf8 2 (128, 191) os)
      else if b = 237 then map_option ((#) (char_of b)) (utf8 2 (128, 159) os)
      else if b = 240 then map_option ((#) (char_of b)) (utf8 3 (144, 191) os)
      else if 241 \<le> b \<and> b \<le> 243 then map_option ((#) (char_of b)) (utf8 3 (128, 191) os)
      else if b = 244 then map_option ((#) (char_of b)) (utf8 3 (128, 143) os)
      else None)"
| "utf8 (Suc n) r (Escaped b # os) =
     (if fst r \<le> b \<and> b \<le> snd r
      then map_option ((#) (char_of b)) (utf8 n (128, 191) os)
      else None)"

definition decodeURIComponent :: "string \<Rightarrow> js_error + string" where
  "decodeURIComponent s =
     (case unescape s of
        None \<Rightarrow> Inl (URI_error ''URI malformed'')
      | Some os \<Rightarrow>
          (case utf8 0 (0, 0) os of
             None \<Rightarrow> Inl (URI_error ''URI malformed'')
           | Some t \<Rightarrow> Inr t))"

text \<open>
  \<open>decode_param\<close> of Express, which decodes the value of each parameter of a route
  that matches; its \<open>URIError\<close> carries the status 400.
\<close>

definition decode_param :: "string \<Rightarrow> js_error + string" where
  "decode_param val =
     (if val = [] then Inr val
      else (case decodeURIComponent val of
              Inl e \<Rightarrow> Inl (URI_error (''Failed to decode param '' @ val))
            | Inr t \<Rightarrow> Inr t))"

text \<open>The parameters of a route are decoded in order; the first failure is thrown.\<close>

fun decode_params :: "string list \<Rightarrow> js_error + string list" where
  "decode_params [] = Inr []"
| "decode_params (v # vs) =
     (case decode_param v of
        Inl e \<Rightarrow> Inl e
      | Inr t \<Rightarrow> (case decode_params vs of Inl e \<Rightarrow> Inl e | Inr ts \<Rightarrow> Inr (t # ts)))"

text \<open>
  \<open>String(code)\<close> for a status code, and \<open>res.sendStatus(code)\<close> of Express: the
  status is set and the body is the status message of the code, or the code in
  digits where the table of messages has none. Of that table the model has the
  entries of the two codes this module sends.
\<close>

function digits :: "nat \<Rightarrow> string" where
  "digits n = (if n < 10 then [''0123456789'' ! n] else digits (n div 10) @ [''0123456789'' ! (n mod 10)])"
  by pat_completeness auto
termination
  by (relation "measure (\<lambda>n. n)") auto

declare digits.simps [simp del]

definition status_message :: "nat \<Rightarrow> string" where
  "status_message code =
     (case map_of [(200, ''OK''), (401, ''Unauthorized'')] code of
        Some m \<Rightarrow> m
      | None \<Rightarrow> digits code)"

section \<open>Requests, responses and the external interfaces\<close>

text \<open>
  The methods the routes are registered for, and \<open>PUT\<close> for any other one. \<open>HEAD\<close> and
  \<open>OPTIONS\<close>, which Express answers through the \<open>GET\<close> routes and by itself, are left
  out.
\<close>

datatype http_method = GET | POST | PATCH | DELETE | PUT

text \<open>
  A request as the router sees it. \<open>segments\<close> is \<open>req.path\<close> cut at its slashes
  (\<open>/\<close> is \<open>[]\<close>, \<open>/vms/abc\<close> is \<open>[''vms'', ''abc'']\<close>, a trailing slash gives a
  last segment that is empty), each segment as the client sent it, with its escapes.
  A query parameter is given at most once, so its value is a string. \<open>body\<close> is what the \<open>json()\<close>
  middleware of the PATCH route makes of the request body: the parsed object, or the
  error it passes on.
\<close>

record request =
  req_method :: http_method
  baseUrl :: string
  segments :: "string list"
  query :: "string \<rightharpoonup> string"
  cookies :: "string \<rightharpoonup> string"
  headers :: "string \<rightharpoonup> string"
  body :: "js_error + js_object"

definition path :: "request \<Rightarrow> string" where
  "path req = (if segments req = [] then ''/'' else concat (map (\<lambda>s. ''/'' @ s) (segments req)))"

text \<open>An element of a rendered list: a link, or an object of picked fields.\<close>

datatype element = Href string | Fields js_object

text \<open>
  The stream a backend export returns: the status line and headers it declares, the
  chunks it delivers, and the error it ends with when the transfer breaks.
\<close>

record stream =
  statusCode :: nat
  statusMessage :: "string option"
  stream_headers :: "string \<rightharpoonup> string"
  chunks :: "string list"
  failure :: "js_error option"

datatype vdi_format = VDI_FORMAT_RAW | VDI_FORMAT_VHD

record import_options =
  format :: vdi_format
  name_label :: "string option"
  name_description :: "string option"

text \<open>
  What a handler does, in program order: the calls it issues on the backend object
  (\<open>'x\<close> is the type of the handles \<open>getXapiObject\<close> returns) and the calls it makes
  on the response.
\<close>

datatype 'x event =
    Call_set 'x string js_value
  | Call_destroy 'x
  | Call_exportContent 'x string
  | Call_export 'x "string option"
  | Call_importVdi 'x import_options
  | Res_set string string
  | Res_json "element list"
  | Res_json_object js_object
  | Res_pipe "string list"
  | Res_sendStatus nat string
  | Res_writeHead nat string "string \<rightharpoonup> string"
  | Res_write string
  | Res_end "string option"
  | Res_destroy

record user =
  permission :: string

definition sendStatus :: "nat \<Rightarrow> 'x event" where
  "sendStatus code = Res_sendStatus code (status_message code)"

text \<open>
  The application object the constructor receives. A synchronous call is its result or
  the error it throws; \<open>authenticateUser\<close> and the setters return promises; for a call
  that the handler awaits at once, the thrown error and the rejection are the same
  \<open>Inl\<close>. \<open>set_field x key v\<close> is \<open>obj['set_' + key](v)\<close>.
\<close>

record ('x, 'n) app =
  authenticateUser :: "string option \<Rightarrow> user promise"
  getObject :: "string \<Rightarrow> string option \<Rightarrow> js_error + js_object"
  getXapiObject :: "js_object \<Rightarrow> js_error + 'x"
  getObjects :: "(js_object \<Rightarrow> bool) \<Rightarrow> 'n option \<Rightarrow> js_error + js_object list"
  set_field :: "'x \<Rightarrow> string \<Rightarrow> js_value \<Rightarrow> js_error + unit promise"
  destroy :: "'x \<Rightarrow> js_error + unit"
  exportContent :: "'x \<Rightarrow> string \<Rightarrow> js_error + stream"
  export :: "'x \<Rightarrow> string option \<Rightarrow> js_error + stream"
  importVdi :: "'x \<Rightarrow> 'n option \<Rightarrow> import_options \<Rightarrow> js_error + string"
  getField_uuid :: "'x \<Rightarrow> string \<Rightarrow> js_error + string"

text \<open>
  Functions of the runtime and of libraries outside the repository, taken as parameters:
  \<open>Number\<close>, \<open>JSON.stringify\<close>, \<open>CM.parse(text).createPredicate()\<close> of
  \<open>complex-matcher\<close>, which throws on a malformed expression, and \<open>stringToPath\<close> of
  lodash, the scanner that cuts a path such as \<open>a.b\<close> or \<open>a[0]\<close> into its keys.
\<close>

record 'n env =
  Number :: "string \<Rightarrow> 'n"
  stringify :: "element \<Rightarrow> string"
  parse :: "string \<Rightarrow> js_error + (js_object \<Rightarrow> bool)"
  stringToPath :: "string \<Rightarrow> string list"

section \<open>sendObjects\<close>

definition makeUrl :: "string \<Rightarrow> js_object \<Rightarrow> string" where
  "makeUrl basePath object = basePath @ ''/'' @ to_string (object ''id'')"

text \<open>
  \<open>pick(object, paths)\<close> of lodash. Each listed name is a key or a path: \<open>isKey\<close>
  takes it for a key when it is made of word characters, or does not look like a path
  (\<open>reIsDeepProp\<close>: a dot, or an opening bracket with a closing one somewhere after
  it), or is a property of the object; otherwise \<open>stringToPath\<close> cuts it into keys.
\<close>

definition is_plain_prop :: "string \<Rightarrow> bool" where
  "is_plain_prop n =
     list_all (\<lambda>c. c \<in> set ''abcdefghijklmnopqrstuvwxyzABCDEFGHIJKLMNOPQRSTUVWXYZ0123456789_'') n"

definition is_deep_prop :: "string \<Rightarrow> bool" where
  "is_deep_prop n =
     (CHR ''.'' \<in> set n \<or> CHR '']'' \<in> set (dropWhile (\<lambda>c. c \<noteq> CHR ''['') n))"

definition isKey :: "string \<Rightarrow> js_object \<Rightarrow> bool" where
  "isKey n object = (is_plain_prop n \<or> \<not> is_deep_prop n \<or> object n \<noteq> None)"

definition castPath :: "'n env \<Rightarrow> string \<Rightarrow> js_object \<Rightarrow> string list" where
  "castPath env n object = (if isKey n object then [n] else stringToPath env n)"

text \<open>
  \<open>baseGet\<close> along a path, with the test \<open>hasIn\<close> of \<open>pick\<close>: the value at the end of
  the path, where every key on the way is a property of the value reached so far.
  The model follows a path through the data only: an inherited member, and a
  property of the wrapper object of a string or a boolean, is read as absent.
\<close>

fun baseGet :: "js_value \<Rightarrow> string list \<Rightarrow> js_value option" where
  "baseGet v [] = Some v"
| "baseGet v (k # ks) =
     (case v of
        Obj m \<Rightarrow> (case m k of Some w \<Rightarrow> baseGet w ks | None \<Rightarrow> None)
      | _ \<Rightarrow> None)"

text \<open>
  \<open>baseSet\<close>: the value is stored at the end of the path, in the object found under
  each key on the way or in a new one. (Where the next key is an array index lodash
  makes the new one an array; arrays are left out here. Its refusal of the keys
  \<open>__proto__\<close>, \<open>constructor\<close> and \<open>prototype\<close> is left out as well.)
\<close>

fun baseSet :: "js_object \<Rightarrow> string list \<Rightarrow> js_value \<Rightarrow> js_object" where
  "baseSet result [] v = result"
| "baseSet result [k] v = result(k \<mapsto> v)"
| "baseSet result (k # ks) v =
     result(k \<mapsto> Obj (baseSet (case result k of Some (Obj m) \<Rightarrow> m | _ \<Rightarrow> Map.empty) ks v))"

text \<open>\<open>basePickBy\<close>: the names in order, each one set in the result where it is found.\<close>

definition pick_step :: "'n env \<Rightarrow> js_object \<Rightarrow> string \<Rightarrow> js_object \<Rightarrow> js_object" where
  "pick_step env object n result =
     (let p = castPath env n object
      in if p = [] then result
         else (case baseGet (Obj object) p of
                 Some v \<Rightarrow> baseSet result p v
               | None \<Rightarrow> result))"

definition pick :: "'n env \<Rightarrow> js_object \<Rightarrow> string list \<Rightarrow> js_object" where
  "pick env object names = fold (pick_step env object) names Map.empty"

text \<open>Lines 18 to 30: the list \<open>results\<close>.\<close>

definition results ::
  "'n env \<Rightarrow> string \<Rightarrow> string option \<Rightarrow> js_object list \<Rightarrow> element list" where
  "results env basePath fields_param objects =
     (case fields_param of
        Some text \<Rightarrow>
          (let names = split_str (CHR '','') text
           in map (\<lambda>object.
                     let url = makeUrl basePath object;
                         object = pick env object names
                     in Fields (object(''href'' \<mapsto> Str url))) objects)
      | None \<Rightarrow> map (\<lambda>object. Href (makeUrl basePath object)) objects)"

text \<open>
  Modelled from the spec: \<open>createNdJsonStream\<close> of \<open>../_createNdJsonStream.mjs\<close>, which
  is not among the sources. The spec: each element is serialized independently and
  written as its own line.
\<close>

definition createNdJsonStream :: "(element \<Rightarrow> string) \<Rightarrow> element list \<Rightarrow> string list" where
  "createNdJsonStream js rs = map (\<lambda>r. js r @ [CHR 0x0A]) rs"

definition sendObjects :: "'n env \<Rightarrow> js_object list \<Rightarrow> request \<Rightarrow> 'x event list" where
  "sendObjects env objects req =
     (let basePath = baseUrl req @ path req;
          rs = results env basePath (query req ''fields'') objects
      in if query req ''ndjson'' \<noteq> None
         then [Res_set ''Content-Type'' ''application/x-ndjson'',
               Res_pipe (createNdJsonStream (stringify env) rs)]
         else [Res_json rs])"

section \<open>The filter of a listing\<close>

text \<open>
  An argument of \<open>every\<close>: \<open>undefined\<close>, a predicate, or the empty string, which is
  what \<open>filter && ...\<close> evaluates to when the query has \<open>filter=\<close> with no text.
\<close>

datatype predicate_arg = Arg_undefined | Arg_empty_string | Arg_function "js_object \<Rightarrow> bool"

definition handleOptionalUserFilter :: "'n env \<Rightarrow> string option \<Rightarrow> js_error + predicate_arg" where
  "handleOptionalUserFilter env filter_param =
     (case filter_param of
        None \<Rightarrow> Inr Arg_undefined
      | Some text \<Rightarrow>
          if text = [] then Inr Arg_empty_string
          else (case parse env text of
                  Inl e \<Rightarrow> Inl e
                | Inr p \<Rightarrow> Inr (Arg_function p)))"

text \<open>
  Modelled from the spec: \<open>every\<close> of \<open>@vates/predicates\<close>, which is not among the
  sources. The spec: the predicates are combined with logical AND, and an absent one is
  treated as always true. The spec gives \<open>every\<close> no argument that is neither absent
  nor a predicate; the model raises a type error for the empty string, so that no
  predicate is made up for it.
\<close>

fun defined_predicates :: "predicate_arg list \<Rightarrow> js_error + (js_object \<Rightarrow> bool) list" where
  "defined_predicates [] = Inr []"
| "defined_predicates (Arg_undefined # as) = defined_predicates as"
| "defined_predicates (Arg_empty_string # as) = Inl (Type_error ''not a valid predicate'')"
| "defined_predicates (Arg_function p # as) =
     (case defined_predicates as of
        Inl e \<Rightarrow> Inl e
      | Inr ps \<Rightarrow> Inr (p # ps))"

definition every :: "predicate_arg list \<Rightarrow> js_error + (js_object \<Rightarrow> bool)" where
  "every as =
     (case defined_predicates as of
        Inl e \<Rightarrow> Inl e
      | Inr ps \<Rightarrow> Inr (\<lambda>object. list_all (\<lambda>p. p object) ps))"

text \<open>
  Modelled from the spec: \<open>ifDef\<close> of \<open>@xen-orchestra/defined\<close>, which is not among the
  sources. The spec: the limit is optional, and its absence means unbounded.
\<close>

definition ifDef :: "'a option \<Rightarrow> ('a \<Rightarrow> 'b) \<Rightarrow> 'b option" where
  "ifDef v f = map_option f v"

section \<open>The collections\<close>

record collection =
  collection_id :: string
  collection_type :: string

definition types :: "string list" where
  "types = [''host'', ''network'', ''pool'', ''SR'', ''VBD'', ''VDI-snapshot'', ''VDI'', ''VIF'',
            ''VM-snapshot'', ''VM-template'', ''VM'']"

text \<open>The entries of \<open>collections\<close>, in the order of \<open>types\<close>.\<close>

definition collections :: "(string \<times> collection) list" where
  "collections =
     map (\<lambda>t. let i = toLowerCase t @ ''s''
              in (i, \<lparr>collection_id = i, collection_type = t\<rparr>)) types"

definition isCorrectType :: "collection \<Rightarrow> js_object \<Rightarrow> bool" where
  "isCorrectType c = (\<lambda>object. object ''type'' = Some (Str (collection_type c)))"

text \<open>
  A descriptor as \<open>sendObjects\<close> renders it on the index route. \<open>isCorrectType\<close> is a
  function, which \<open>res.json\<close> and \<open>JSON.stringify\<close> leave out of the output.
\<close>

definition collection_object :: "collection \<Rightarrow> js_object" where
  "collection_object c = [''id'' \<mapsto> Str (collection_id c), ''type'' \<mapsto> Str (collection_type c)]"

text \<open>
  \<open>collections\<close> is an ordinary object, made by \<open>Object.fromEntries\<close>, so its prototype is
  \<open>Object.prototype\<close>, and \<open>collections[id]\<close> reads an inherited property where the
  object has none of its own. These are the property names of \<open>Object.prototype\<close>.
\<close>

definition object_prototype_names :: "string list" where
  "object_prototype_names =
     [''constructor'', ''__defineGetter__'', ''__defineSetter__'', ''hasOwnProperty'',
      ''__lookupGetter__'', ''__lookupSetter__'', ''isPrototypeOf'', ''propertyIsEnumerable'',
      ''toString'', ''valueOf'', ''__proto__'', ''toLocaleString'']"

text \<open>
  What \<open>req.collection\<close> holds after the parameter handler: a descriptor, or the
  inherited member of that name, which has neither \<open>type\<close> nor \<open>isCorrectType\<close>.
\<close>

datatype req_collection = Descriptor collection | Inherited string

definition lookup :: "string \<Rightarrow> req_collection option" where
  "lookup i =
     (case map_of collections i of
        Some c \<Rightarrow> Some (Descriptor c)
      | None \<Rightarrow> if i \<in> set object_prototype_names then Some (Inherited i) else None)"

fun type_of :: "req_collection \<Rightarrow> string option" where
  "type_of (Descriptor c) = Some (collection_type c)"
| "type_of (Inherited n) = None"

fun isCorrectType_of :: "req_collection \<Rightarrow> predicate_arg" where
  "isCorrectType_of (Descriptor c) = Arg_function (isCorrectType c)"
| "isCorrectType_of (Inherited n) = Arg_undefined"

section \<open>Middleware\<close>

text \<open>
  How a middleware ends: \<open>next()\<close>, \<open>next('route')\<close> or \<open>next(error)\<close>. The
  authentication middleware can also answer by itself.
\<close>

datatype 'a param_step = Next 'a | Next_route | Next_error js_error

datatype gate_step = Pass | Reject nat | Fail js_error

definition token :: "request \<Rightarrow> string option" where
  "token req =
     (case cookies req ''authenticationToken'' of
        Some t \<Rightarrow> Some t
      | None \<Rightarrow> cookies req ''token'')"

definition authenticate :: "('x, 'n) app \<Rightarrow> request \<Rightarrow> gate_step" where
  "authenticate app req =
     (case authenticateUser app (token req) of
        Fulfilled u \<Rightarrow> if permission u = ''admin'' then Pass else Reject 401
      | Rejected e \<Rightarrow> if e = Invalid_credentials then Reject 401 else Fail e)"

definition param_collection :: "string \<Rightarrow> req_collection param_step" where
  "param_collection i =
     (case lookup i of
        None \<Rightarrow> Next_route
      | Some c \<Rightarrow> Next c)"

text \<open>
  Modelled from the spec: \<open>noSuchObject.is(error, { id, type })\<close> of
  \<open>xo-common/api-errors.js\<close>, which is not among the sources. The spec: the backend
  reports "no such object" for that id/type pair.
\<close>

definition noSuchObject_is :: "js_error \<Rightarrow> string \<Rightarrow> string option \<Rightarrow> bool" where
  "noSuchObject_is e i t = (e = No_such_object i t)"

text \<open>
  \<open>const { type } = req.collection\<close> stands before the \<open>try\<close>: where no collection
  was resolved it throws a \<open>TypeError\<close>, which Express passes on as an error.
\<close>

definition param_object ::
  "('x, 'n) app \<Rightarrow> req_collection option \<Rightarrow> string \<Rightarrow> (js_object \<times> 'x) param_step" where
  "param_object app coll i =
     (case coll of
        None \<Rightarrow> Next_error (Type_error ''Cannot destructure property type of req.collection'')
      | Some c \<Rightarrow>
          (let t = type_of c;
               catch = (\<lambda>e. if noSuchObject_is e i t then Next_route else Next_error e)
           in case getObject app i t of
                Inl e \<Rightarrow> catch e
              | Inr xo \<Rightarrow>
                  (case getXapiObject app xo of
                     Inl e \<Rightarrow> catch e
                   | Inr x \<Rightarrow> Next (xo, x))))"

text \<open>
  \<open>wrap\<close>: the events of the asynchronous handler, and \<open>next(error)\<close> where it throws.
\<close>

datatype ending = Ended | Forwarded js_error | Unmatched

definition wrap :: "'x event list \<times> (js_error + unit) \<Rightarrow> 'x event list \<times> ending" where
  "wrap m =
     (case m of
        (evs, Inl e) \<Rightarrow> (evs, Forwarded e)
      | (evs, Inr _) \<Rightarrow> (evs, Ended))"

section \<open>The handlers\<close>

text \<open>
  A handler is given what the parameter handlers left on the request. Its value is the
  events it caused and, for an asynchronous handler, whether it returned or threw.
\<close>

definition api_list ::
  "'n env \<Rightarrow> ('x, 'n) app \<Rightarrow> req_collection \<Rightarrow> request \<Rightarrow> 'x event list \<times> (js_error + unit)" where
  "api_list env app coll req =
     (case handleOptionalUserFilter env (query req ''filter'') of
        Inl e \<Rightarrow> ([], Inl e)
      | Inr user_filter \<Rightarrow>
          (case every [isCorrectType_of coll, user_filter] of
             Inl e \<Rightarrow> ([], Inl e)
           | Inr p \<Rightarrow>
               (case getObjects app p (ifDef (query req ''limit'') (Number env)) of
                  Inl e \<Rightarrow> ([], Inl e)
                | Inr objects \<Rightarrow> (sendObjects env objects req, Inr ()))))"

text \<open>The loop of the PATCH handler over the two keys: the calls made and the promises pushed.\<close>

fun push_setters ::
  "('x, 'n) app \<Rightarrow> 'x \<Rightarrow> js_object \<Rightarrow> string list \<Rightarrow> 'x event list \<times> (js_error + unit promise list)" where
  "push_setters app obj b [] = ([], Inr [])"
| "push_setters app obj b (key # keys) =
     (case b key of
        None \<Rightarrow> push_setters app obj b keys
      | Some v \<Rightarrow>
          (case set_field app obj key v of
             Inl e \<Rightarrow> ([Call_set obj key v], Inl e)
           | Inr p \<Rightarrow>
               (case push_setters app obj b keys of
                  (evs, Inl e) \<Rightarrow> (Call_set obj key v # evs, Inl e)
                | (evs, Inr ps) \<Rightarrow> (Call_set obj key v # evs, Inr (p # ps)))))"

definition api_patch ::
  "('x, 'n) app \<Rightarrow> 'x \<Rightarrow> js_object \<Rightarrow> 'x event list \<times> (js_error + unit)" where
  "api_patch app obj b =
     (case push_setters app obj b [''name_description'', ''name_label''] of
        (evs, Inl e) \<Rightarrow> (evs, Inl e)
      | (evs, Inr promises) \<Rightarrow>
          (case await_value promises of
             Inl e \<Rightarrow> (evs, Inl e)
           | Inr _ \<Rightarrow> (evs @ [sendStatus 200], Inr ())))"

text \<open>
  \<open>+req.headers['content-length']\<close> is \<open>NaN\<close> where the header is absent: \<open>None\<close> here.
\<close>

definition api_import ::
  "'n env \<Rightarrow> ('x, 'n) app \<Rightarrow> 'x \<Rightarrow> request \<Rightarrow> 'x event list \<times> (js_error + unit)" where
  "api_import env app sr req =
     (let len = map_option (Number env) (headers req ''content-length'');
          opts = \<lparr>format = (if query req ''raw'' \<noteq> None then VDI_FORMAT_RAW else VDI_FORMAT_VHD),
                  name_label = query req ''name_label'',
                  name_description = query req ''name_description''\<rparr>
      in case importVdi app sr len opts of
           Inl e \<Rightarrow> ([Call_importVdi sr opts], Inl e)
         | Inr vdiRef \<Rightarrow>
             (case getField_uuid app sr vdiRef of
                Inl e \<Rightarrow> ([Call_importVdi sr opts], Inl e)
              | Inr uuid \<Rightarrow> ([Call_importVdi sr opts, Res_end (Some uuid)], Inr ())))"

definition api_delete :: "('x, 'n) app \<Rightarrow> 'x \<Rightarrow> 'x event list \<times> (js_error + unit)" where
  "api_delete app obj =
     (case destroy app obj of
        Inl e \<Rightarrow> ([Call_destroy obj], Inl e)
      | Inr _ \<Rightarrow> ([Call_destroy obj, sendStatus 200], Inr ()))"

text \<open>
  The three statements both export handlers share: the header is set on the stream's
  own header object, \<open>writeHead\<close> sends the status line and the headers, and \<open>pipeline\<close>
  writes every chunk and ends the response, or destroys it and fails with the
  stream's error.
\<close>

definition send_stream :: "stream \<Rightarrow> 'x event list \<times> (js_error + unit)" where
  "send_stream s =
     (let hs = (stream_headers s)(''content-disposition'' \<mapsto> ''attachment'');
          head = Res_writeHead (statusCode s)
                   (case statusMessage s of Some m \<Rightarrow> m | None \<Rightarrow> []) hs
      in case failure s of
           None \<Rightarrow> (head # map Res_write (chunks s) @ [Res_end None], Inr ())
         | Some e \<Rightarrow> (head # map Res_write (chunks s) @ [Res_destroy], Inl e))"

definition api_export_vdi ::
  "('x, 'n) app \<Rightarrow> 'x \<Rightarrow> string \<Rightarrow> 'x event list \<times> (js_error + unit)" where
  "api_export_vdi app obj fmt =
     (case exportContent app obj fmt of
        Inl e \<Rightarrow> ([Call_exportContent obj fmt], Inl e)
      | Inr s \<Rightarrow> (case send_stream s of (evs, r) \<Rightarrow> (Call_exportContent obj fmt # evs, r)))"

definition api_export_vm ::
  "('x, 'n) app \<Rightarrow> 'x \<Rightarrow> string option \<Rightarrow> 'x event list \<times> (js_error + unit)" where
  "api_export_vm app obj compress =
     (case export app obj compress of
        Inl e \<Rightarrow> ([Call_export obj compress], Inl e)
      | Inr s \<Rightarrow> (case send_stream s of (evs, r) \<Rightarrow> (Call_export obj compress # evs, r)))"

section \<open>The router\<close>

text \<open>The routes, in the order the constructor registers them.\<close>

datatype route =
  R_index | R_list | R_get | R_patch | R_import | R_delete | R_export_vdi | R_export_vm

definition routes :: "route list" where
  "routes = [R_index, R_list, R_get, R_patch, R_import, R_delete, R_export_vdi, R_export_vm]"

fun route_method :: "route \<Rightarrow> http_method" where
  "route_method R_index = GET"
| "route_method R_list = GET"
| "route_method R_get = GET"
| "route_method R_patch = PATCH"
| "route_method R_import = POST"
| "route_method R_delete = DELETE"
| "route_method R_export_vdi = GET"
| "route_method R_export_vm = GET"

text \<open>
  A last segment \<open>object.ext\<close> with \<open>ext\<close> one of the listed extensions, compared
  without regard to case, and a non-empty \<open>object\<close>: the two parts.
\<close>

definition split_extension :: "string list \<Rightarrow> string \<Rightarrow> (string \<times> string) option" where
  "split_extension exts s =
     (case find (\<lambda>e. length e + 1 < length s
                    \<and> toLowerCase (drop (length s - (length e + 1)) s) = CHR ''.'' # e) exts of
        None \<Rightarrow> None
      | Some e \<Rightarrow> Some (take (length s - (length e + 1)) s, drop (length s - length e) s))"

text \<open>
  The path patterns, which Express matches against the path as the client sent it.
  The router is made with \<open>strict: true\<close> and without \<open>caseSensitive\<close>: a parameter
  matches a non-empty segment, a trailing slash is not accepted, and the literal
  parts and the alternatives of a pattern match without regard to case. The value
  is the list of the parameters' values, not yet decoded, in the order of the
  pattern.
\<close>

fun match_path :: "route \<Rightarrow> string list \<Rightarrow> string list option" where
  "match_path R_index segs = (if segs = [] then Some [] else None)"
| "match_path R_list segs =
     (case segs of [c] \<Rightarrow> if c \<noteq> [] then Some [c] else None | _ \<Rightarrow> None)"
| "match_path R_get segs =
     (case segs of [c, ob] \<Rightarrow> if c \<noteq> [] \<and> ob \<noteq> [] then Some [c, ob] else None | _ \<Rightarrow> None)"
| "match_path R_patch segs =
     (case segs of [c, ob] \<Rightarrow> if c \<noteq> [] \<and> ob \<noteq> [] then Some [c, ob] else None | _ \<Rightarrow> None)"
| "match_path R_import segs =
     (case segs of
        [s, ob, v] \<Rightarrow>
          if toLowerCase s = ''srs'' \<and> ob \<noteq> [] \<and> toLowerCase v = ''vdis'' then Some [ob] else None
      | _ \<Rightarrow> None)"
| "match_path R_delete segs =
     (case segs of
        [c, ob] \<Rightarrow>
          if toLowerCase c \<in> set [''vdis'', ''vdi-snapshots'', ''vms'', ''vm-snapshots'', ''vm-templates'']
             \<and> ob \<noteq> []
          then Some [c, ob] else None
      | _ \<Rightarrow> None)"
| "match_path R_export_vdi segs =
     (case segs of
        [c, f] \<Rightarrow>
          if toLowerCase c \<in> set [''vdis'', ''vdi-snapshots'']
          then (case split_extension [''vhd'', ''raw''] f of
                  Some (ob, fmt) \<Rightarrow> Some [c, ob, fmt]
                | None \<Rightarrow> None)
          else None
      | _ \<Rightarrow> None)"
| "match_path R_export_vm segs =
     (case segs of
        [c, f] \<Rightarrow>
          if toLowerCase c \<in> set [''vms'', ''vm-snapshots'', ''vm-templates'']
          then (case split_extension [''xva''] f of
                  Some (ob, ext) \<Rightarrow> Some [c, ob]
                | None \<Rightarrow> None)
          else None
      | _ \<Rightarrow> None)"

text \<open>
  The result of a request: the terminal handler that ran, if one did, the events, and
  how the router was left: the response is complete, an error went to \<open>next\<close>, or no
  route matched.
\<close>

datatype 'x result = Result "route option" "'x event list" ending

definition handled :: "route \<Rightarrow> 'x event list \<times> ending \<Rightarrow> 'x result option" where
  "handled r m = (case m of (evs, en) \<Rightarrow> Some (Result (Some r) evs en))"

text \<open>
  After a parameter handler: go on, leave the route (\<open>None\<close>: the router tries the
  next one), or pass the error on.
\<close>

definition on_param :: "'a param_step \<Rightarrow> ('a \<Rightarrow> 'x result option) \<Rightarrow> 'x result option" where
  "on_param st k =
     (case st of
        Next v \<Rightarrow> k v
      | Next_route \<Rightarrow> None
      | Next_error e \<Rightarrow> Some (Result None [] (Forwarded e)))"

text \<open>
  A route whose path matched: the parameter handlers of its parameters run in the
  order of the pattern, then its handlers. The import route has no \<open>collection\<close>
  parameter, so \<open>req.collection\<close> is still undefined when its \<open>object\<close> is resolved.
  On the PATCH route \<open>json()\<close> stands before the handler.
\<close>

fun run :: "'n env \<Rightarrow> ('x, 'n) app \<Rightarrow> request \<Rightarrow> route \<Rightarrow> string list \<Rightarrow> 'x result option" where
  "run env app req R_index ps =
     Some (Result (Some R_index) (sendObjects env (map (\<lambda>(i, c). collection_object c) collections) req) Ended)"
| "run env app req R_list ps =
     (case ps of
        [c] \<Rightarrow> on_param (param_collection c) (\<lambda>coll. handled R_list (wrap (api_list env app coll req)))
      | _ \<Rightarrow> None)"
| "run env app req R_get ps =
     (case ps of
        [c, ob] \<Rightarrow>
          on_param (param_collection c) (\<lambda>coll.
          on_param (param_object app (Some coll) ob) (\<lambda>(xo, x).
            Some (Result (Some R_get) [Res_json_object xo] Ended)))
      | _ \<Rightarrow> None)"
| "run env app req R_patch ps =
     (case ps of
        [c, ob] \<Rightarrow>
          on_param (param_collection c) (\<lambda>coll.
          on_param (param_object app (Some coll) ob) (\<lambda>(xo, x).
            case body req of
              Inl e \<Rightarrow> Some (Result None [] (Forwarded e))
            | Inr b \<Rightarrow> handled R_patch (wrap (api_patch app x b))))
      | _ \<Rightarrow> None)"
| "run env app req R_import ps =
     (case ps of
        [ob] \<Rightarrow>
          on_param (param_object app None ob) (\<lambda>(xo, x).
            handled R_import (wrap (api_import env app x req)))
      | _ \<Rightarrow> None)"
| "run env app req R_delete ps =
     (case ps of
        [c, ob] \<Rightarrow>
          on_param (param_collection c) (\<lambda>coll.
          on_param (param_object app (Some coll) ob) (\<lambda>(xo, x).
            handled R_delete (wrap (api_delete app x))))
      | _ \<Rightarrow> None)"
| "run env app req R_export_vdi ps =
     (case ps of
        [c, ob, fmt] \<Rightarrow>
          on_param (param_collection c) (\<lambda>coll.
          on_param (param_object app (Some coll) ob) (\<lambda>(xo, x).
            handled R_export_vdi (wrap (api_export_vdi app x fmt))))
      | _ \<Rightarrow> None)"
| "run env app req R_export_vm ps =
     (case ps of
        [c, ob] \<Rightarrow>
          on_param (param_collection c) (\<lambda>coll.
          on_param (param_object app (Some coll) ob) (\<lambda>(xo, x).
            handled R_export_vm (wrap (api_export_vm app x (query req ''compress'')))))
      | _ \<Rightarrow> None)"

text \<open>
  One layer of the router's scan. The path is matched and the parameters are decoded
  before the method is looked at. A parameter that cannot be decoded is an error
  that the scan keeps: no later route is entered, and the error goes to \<open>next\<close>.
\<close>

definition try_route :: "'n env \<Rightarrow> ('x, 'n) app \<Rightarrow> request \<Rightarrow> route \<Rightarrow> 'x result option" where
  "try_route env app req r =
     (case match_path r (segments req) of
        None \<Rightarrow> None
      | Some raw \<Rightarrow>
          (case decode_params raw of
             Inl e \<Rightarrow> Some (Result None [] (Forwarded e))
           | Inr ps \<Rightarrow> if req_method req = route_method r then run env app req r ps else None))"

fun first_route :: "'n env \<Rightarrow> ('x, 'n) app \<Rightarrow> request \<Rightarrow> route list \<Rightarrow> 'x result" where
  "first_route env app req [] = Result None [] Unmatched"
| "first_route env app req (r # rs) =
     (case try_route env app req r of
        Some res \<Rightarrow> res
      | None \<Rightarrow> first_route env app req rs)"

text \<open>The router: the authentication middleware, then the routes.\<close>

definition rest_api :: "'n env \<Rightarrow> ('x, 'n) app \<Rightarrow> request \<Rightarrow> 'x result" where
  "rest_api env app req =
     (case authenticate app req of
        Pass \<Rightarrow> first_route env app req routes
      | Reject st \<Rightarrow> Result None [sendStatus st] Ended
      | Fail e \<Rightarrow> Result None [] (Forwarded e))"

section \<open>A backend to run the router on\<close>

text \<open>
  Modelled from the spec: \<open>getObjects\<close> of the backend, which is not among the sources.
  The spec: \<open>getObjects(filter, limit) -> [Resource]\<close>; a listing returns the resources
  that satisfy the filter, and with \<open>limit = k\<close> at most \<open>k\<close> of them. \<open>count\<close> reads the
  limit as a number of elements.
\<close>

definition backend_getObjects ::
  "('n \<Rightarrow> nat) \<Rightarrow> js_object list \<Rightarrow> (js_object \<Rightarrow> bool) \<Rightarrow> 'n option \<Rightarrow> js_error + js_object list" where
  "backend_getObjects count store p limit =
     Inr (case limit of
            None \<Rightarrow> filter p store
          | Some k \<Rightarrow> take (count k) (filter p store))"

text \<open>
  A small backend, for running the definitions on concrete requests: a VM, a host and
  a disk, two tokens, setters that fail, and an export stream that declares a partial
  content; a storage repository with a nested property, which is not in the store;
  and, for \<open>stringToPath\<close>, the cut at the dots, which is what lodash makes of a path
  without brackets.
\<close>

definition demo_vm :: js_object where
  "demo_vm = [''id'' \<mapsto> Str ''vm-1'', ''type'' \<mapsto> Str ''VM'', ''name_label'' \<mapsto> Str ''web'',
              ''href'' \<mapsto> Str ''elsewhere'']"

definition demo_host :: js_object where
  "demo_host = [''id'' \<mapsto> Str ''host-1'', ''type'' \<mapsto> Str ''host'', ''name_label'' \<mapsto> Str ''node'']"

definition demo_vdi :: js_object where
  "demo_vdi = [''id'' \<mapsto> Str ''vdi-1'', ''type'' \<mapsto> Str ''VDI'', ''name_label'' \<mapsto> Str ''disk'']"


definition demo_store :: "js_object list" where
  "demo_store = [demo_vm, demo_host, demo_vdi]"

definition demo_stream :: stream where
  "demo_stream =
     \<lparr>statusCode = 206, statusMessage = None,
      stream_headers = [''content-type'' \<mapsto> ''application/octet-stream''],
      chunks = [''ab'', ''cd''], failure = None\<rparr>"

definition demo_app :: "(string, nat) app" where
  "demo_app =
     \<lparr>authenticateUser =
        (\<lambda>t. if t = Some ''root'' then Fulfilled \<lparr>permission = ''admin''\<rparr>
             else if t = Some ''guest'' then Fulfilled \<lparr>permission = ''none''\<rparr>
             else Rejected Invalid_credentials),
      getObject =
        (\<lambda>i t. case find (\<lambda>ob. ob ''id'' = Some (Str i) \<and> (t = None \<or> ob ''type'' = map_option Str t))
                        demo_store of
                 Some ob \<Rightarrow> Inr ob
               | None \<Rightarrow> Inl (No_such_object i t)),
      getXapiObject = (\<lambda>ob. Inr (to_string (ob ''id''))),
      getObjects = backend_getObjects (\<lambda>k. k) demo_store,
      set_field = (\<lambda>x key v. Inr (Rejected (Error ''HANDLE_INVALID''))),
      destroy = (\<lambda>x. Inr ()),
      exportContent = (\<lambda>x fmt. Inr demo_stream),
      export = (\<lambda>x compress. Inr demo_stream),
      importVdi = (\<lambda>x len opts. Inr ''OpaqueRef:1''),
      getField_uuid = (\<lambda>x r. Inr ''uuid-1'')\<rparr>"

definition demo_env :: "nat env" where
  "demo_env =
     \<lparr>Number = (\<lambda>text. if text = ''1'' then 1 else 0),
      stringify = (\<lambda>r. case r of Href u \<Rightarrow> u | Fields f \<Rightarrow> to_string (f ''href'')),
      parse = (\<lambda>text. if text = ''name_label:web''
                      then Inr (\<lambda>ob. ob ''name_label'' = Some (Str ''web''))
                      else Inl (Error ''parse error'')),
      stringToPath = split_str (CHR ''.'')\<rparr>"

definition demo_request :: request where
  "demo_request =
     \<lparr>req_method = GET, baseUrl = ''/rest/v0'', segments = [''vms''], query = Map.empty,
      cookies = [''authenticationToken'' \<mapsto> ''root''], headers = Map.empty,
      body = Inr Map.empty\<rparr>"

section \<open>Properties of sendObjects\<close>


lemma results_Some_nth:
  assumes "i < length objects"
  shows "results env basePath (Some text) objects ! i =
         Fields ((pick env (objects ! i) (split_str (CHR '','') text))
                   (''href'' \<mapsto> Str (basePath @ ''/'' @ to_string ((objects ! i) ''id''))))"
  using assms by (simp add: results_def makeUrl_def Let_def)

lemma results_length: "length (results env basePath fp objects) = length objects"
  by (simp add: results_def split: option.split)




lemma sendObjects_sends:
  "sendObjects env objects req =
     (if query req ''ndjson'' = None
      then [Res_json (results env (baseUrl req @ path req) (query req ''fields'') objects)]
      else [Res_set ''Content-Type'' ''application/x-ndjson'',
            Res_pipe (createNdJsonStream (stringify env)
                        (results env (baseUrl req @ path req) (query req ''fields'') objects))])"
  by (simp add: sendObjects_def)




text \<open>
  C10. Where \<open>href\<close> is among the requested names and the resource has a property
  \<open>href\<close> of its own, whatever its value, the element that \<open>sendObjects\<close> sends for it,
  in the array or on its line, has for \<open>href\<close> the link \<open>basePath + '/' + id\<close>: the
  assignment \<open>object.href = url\<close> comes after \<open>pick\<close> and replaces what \<open>pick\<close> copied.
\<close>

theorem href_is_overwritten:
  fixes objects :: "js_object list"
  assumes "i < length objects"
    and "query req ''fields'' = Some text"
    and "''href'' \<in> set (split_str (CHR '','') text)"
    and "(objects ! i) ''href'' = Some v"
  shows "\<exists>rs f. sendObjects env objects req
                  = (if query req ''ndjson'' = None then [Res_json rs]
                     else [Res_set ''Content-Type'' ''application/x-ndjson'',
                           Res_pipe (createNdJsonStream (stringify env) rs)])
            \<and> length rs = length objects
            \<and> rs ! i = Fields f
            \<and> f ''href'' = Some (Str (baseUrl req @ path req @ ''/'' @ to_string ((objects ! i) ''id'')))"
proof -
  let ?rs = "results env (baseUrl req @ path req) (query req ''fields'') objects"
  have "sendObjects env objects req
          = (if query req ''ndjson'' = None then [Res_json ?rs]
             else [Res_set ''Content-Type'' ''application/x-ndjson'',
                   Res_pipe (createNdJsonStream (stringify env) ?rs)])"
    by (rule sendObjects_sends)
  moreover have "length ?rs = length objects"
    by (rule results_length)
  moreover from assms have "\<exists>f. ?rs ! i = Fields f
      \<and> f ''href'' = Some (Str (baseUrl req @ path req @ ''/'' @ to_string ((objects ! i) ''id'')))"
    by (simp add: results_Some_nth)
  ultimately show ?thesis by blast
qed

theorem href_is_overwritten_witness:
  "(0::nat) < length demo_store
   \<and> query (demo_request\<lparr>query := [''fields'' \<mapsto> ''href,name_label'']\<rparr>) ''fields''
       = Some ''href,name_label''
   \<and> ''href'' \<in> set (split_str (CHR '','') ''href,name_label'')
   \<and> (demo_store ! 0) ''href'' = Some (Str ''elsewhere'')
   \<and> (\<exists>rs f. sendObjects demo_env demo_store
                 (demo_request\<lparr>query := [''fields'' \<mapsto> ''href,name_label'']\<rparr>)
               = ([Res_json rs] :: string event list)
         \<and> rs ! 0 = Fields f
         \<and> f ''href'' = Some (Str ''/rest/v0/vms/vm-1''))"
proof -
  let ?req = "demo_request\<lparr>query := [''fields'' \<mapsto> ''href,name_label'']\<rparr>"
  have len: "(0::nat) < length demo_store"
    by (simp add: demo_store_def)
  have q: "query ?req ''fields'' = Some ''href,name_label''"
    by simp
  have req: "''href'' \<in> set (split_str (CHR '','') ''href,name_label'')"
    by simp
  have own: "(demo_store ! 0) ''href'' = Some (Str ''elsewhere'')"
    by (simp add: demo_store_def demo_vm_def)
  from href_is_overwritten [OF len q req own, of demo_env, where ?'a = string]
  obtain rs f where s: "sendObjects demo_env demo_store ?req
                = (if query ?req ''ndjson'' = None then [Res_json rs]
                   else [Res_set ''Content-Type'' ''application/x-ndjson'',
                         Res_pipe (createNdJsonStream (stringify demo_env) rs)] :: string event list)"
    and f: "rs ! 0 = Fields f"
    and h: "f ''href'' = Some (Str (baseUrl ?req @ path ?req @ ''/'' @ to_string ((demo_store ! 0) ''id'')))"
    by blast
  from s have sent: "sendObjects demo_env demo_store ?req = ([Res_json rs] :: string event list)"
    by (simp add: demo_request_def)
  from h have 3: "f ''href'' = Some (Str ''/rest/v0/vms/vm-1'')"
    by (simp add: demo_store_def demo_vm_def demo_request_def path_def)
  from len q req own sent f 3 show ?thesis by blast
qed

text \<open>
  C8. For the same objects and the same \<open>fields\<close> parameter, the buffered response
  and the streamed one carry the same list of elements: \<open>res.json\<close> is given the list
  \<open>results\<close>, and the stream has one line for each element of that list, in order, the
  element's serialization followed by a newline.
\<close>

theorem ndjson_same_elements:
  "\<exists>rs. rs = results env (baseUrl req @ path req) (query req ''fields'') objects
      \<and> sendObjects env objects (req\<lparr>query := (query req)(''ndjson'' := None)\<rparr>) = [Res_json rs]
      \<and> sendObjects env objects (req\<lparr>query := (query req)(''ndjson'' \<mapsto> flag)\<rparr>)
          = [Res_set ''Content-Type'' ''application/x-ndjson'',
             Res_pipe (map (\<lambda>r. stringify env r @ [CHR 0x0A]) rs)]"
  by (simp add: sendObjects_def createNdJsonStream_def path_def)

section \<open>Properties of the router\<close>

lemma on_param_handler:
  assumes "on_param st k = Some (Result (Some h) evs en)"
  obtains v where "st = Next v" and "k v = Some (Result (Some h) evs en)"
  using assms by (auto simp: on_param_def split: param_step.splits)

lemma on_param_eq_handler:
  "on_param st k = Some (Result (Some h) evs en)
     \<longleftrightarrow> (\<exists>v. st = Next v \<and> k v = Some (Result (Some h) evs en))"
  by (auto simp: on_param_def split: param_step.splits)

lemma handled_eq:
  "handled r m = Some (Result (Some h) evs en) \<longleftrightarrow> h = r \<and> m = (evs, en)"
  by (cases m) (auto simp: handled_def)

lemma run_handler:
  assumes "run env app req r ps = Some (Result (Some h) evs en)"
  shows "h = r"
  using assms
  by (cases r)
     (auto simp: handled_eq split: list.splits sum.splits elim!: on_param_handler)

lemma try_route_handler:
  assumes "try_route env app req r = Some (Result (Some h) evs en)"
  shows "h = r \<and> req_method req = route_method r
         \<and> (\<exists>raw ps. match_path r (segments req) = Some raw \<and> decode_params raw = Inr ps
               \<and> run env app req r ps = Some (Result (Some h) evs en))"
  using assms
  by (auto simp: try_route_def split: if_splits option.splits sum.splits dest: run_handler)

lemma first_route_handler:
  assumes "first_route env app req rs = Result (Some h) evs en"
  shows "try_route env app req h = Some (Result (Some h) evs en)"
  using assms
proof (induction rs)
  case Nil
  then show ?case by simp
next
  case (Cons r rs)
  show ?case
  proof (cases "try_route env app req r")
    case None
    with Cons show ?thesis by simp
  next
    case (Some res)
    with Cons.prems have "res = Result (Some h) evs en" by simp
    with Some try_route_handler [of env app req r h evs en] show ?thesis by simp
  qed
qed

lemma rest_api_handler:
  assumes "rest_api env app req = Result (Some h) evs en"
  shows "authenticate app req = Pass \<and> try_route env app req h = Some (Result (Some h) evs en)"
  using assms
  by (auto simp: rest_api_def split: gate_step.splits dest: first_route_handler)

lemma authenticate_Pass:
  "authenticate app req = Pass \<longleftrightarrow>
     (\<exists>u. authenticateUser app (token req) = Fulfilled u \<and> permission u = ''admin'')"
  by (auto simp: authenticate_def split: promise.splits)

lemma try_route_no_match:
  assumes "match_path r (segments req) = None"
  shows "try_route env app req r = None"
  using assms by (simp add: try_route_def)

lemma try_route_run:
  assumes "match_path r (segments req) = Some raw" and "decode_params raw = Inr ps"
    and "req_method req = route_method r"
  shows "try_route env app req r = run env app req r ps"
  using assms by (simp add: try_route_def)

subsection \<open>Decoding\<close>

lemma unescape_plain:
  assumes "CHR ''%'' \<notin> set s"
  shows "unescape s = Some (map Raw s)"
  using assms by (induction s rule: unescape.induct) auto

lemma utf8_raw: "utf8 0 r (map Raw s) = Some s"
  by (induction s) simp_all

lemma decode_param_plain:
  assumes "CHR ''%'' \<notin> set s"
  shows "decode_param s = Inr s"
  using assms by (simp add: decode_param_def decodeURIComponent_def unescape_plain utf8_raw)

lemma to_lower_char_percent: "to_lower_char x = CHR ''%'' \<longleftrightarrow> x = CHR ''%''"
  by (auto simp: to_lower_char_def split: option.splits if_splits)

lemma to_lower_char_percent': "CHR ''%'' = to_lower_char x \<longleftrightarrow> x = CHR ''%''"
  using to_lower_char_percent [of x] by auto

lemma toLowerCase_percent: "CHR ''%'' \<in> set (toLowerCase s) \<longleftrightarrow> CHR ''%'' \<in> set s"
  by (induction s) (auto simp: toLowerCase_def to_lower_char_percent')

lemma decode_param_lower:
  assumes "CHR ''%'' \<notin> set (toLowerCase s)"
  shows "decode_param s = Inr s"
  using assms by (simp add: decode_param_plain toLowerCase_percent)

lemma decode_params_two:
  "decode_params [a, b] = Inr ps
     \<longleftrightarrow> (\<exists>a' b'. decode_param a = Inr a' \<and> decode_param b = Inr b' \<and> ps = [a', b'])"
  by (auto split: sum.splits)

lemma decode_params_three:
  "decode_params [a, b, c] = Inr ps
     \<longleftrightarrow> (\<exists>a' b' c'. decode_param a = Inr a' \<and> decode_param b = Inr b' \<and> decode_param c = Inr c'
            \<and> ps = [a', b', c'])"
  by (auto split: sum.splits)

lemma decode_encoded_vms: "decode_param ''%76ms'' = Inr ''vms''"
  by code_simp

subsection \<open>The names the table answers to\<close>

lemma collection_ids:
  "map fst collections =
     [''hosts'', ''networks'', ''pools'', ''srs'', ''vbds'', ''vdi-snapshots'', ''vdis'', ''vifs'',
      ''vm-snapshots'', ''vm-templates'', ''vms'']"
  by code_simp

lemma lookup_None:
  "lookup c = None \<longleftrightarrow> c \<notin> set (map fst collections) \<and> c \<notin> set object_prototype_names"
proof (cases "map_of collections c")
  case None
  then have "c \<notin> set (map fst collections)"
    by (simp add: map_of_eq_None_iff)
  with None show ?thesis by (simp add: lookup_def)
next
  case (Some d)
  with map_of_eq_None_iff [of collections c] have "c \<in> set (map fst collections)"
    by simp
  with Some show ?thesis by (simp add: lookup_def)
qed

lemma known_names_lower:
  "\<forall>c \<in> set (map fst collections @ object_prototype_names).
     toLowerCase c \<in> set (map fst collections) \<longrightarrow> toLowerCase c = c"
  by code_simp

lemma lookup_lower:
  assumes "lookup c \<noteq> None" and "toLowerCase c \<in> set (map fst collections)"
  shows "toLowerCase c = c"
proof -
  from assms(1) have "c \<in> set (map fst collections @ object_prototype_names)"
    using lookup_None [of c] by auto
  with known_names_lower assms(2) show ?thesis by blast
qed

lemma pattern_collections:
  "set [''vdis'', ''vdi-snapshots'', ''vms'', ''vm-snapshots'', ''vm-templates'']
     \<subseteq> set (map fst collections)"
  "set [''vdis'', ''vdi-snapshots''] \<subseteq> set (map fst collections)"
  "set [''vms'', ''vm-snapshots'', ''vm-templates''] \<subseteq> set (map fst collections)"
  by (simp_all add: collection_ids)

lemma collection_ids_plain:
  "\<forall>c \<in> set (map fst collections). CHR ''%'' \<notin> set c \<and> toLowerCase c = c \<and> c \<noteq> []"
  by code_simp

text \<open>
  A segment that a pattern with alternatives matches holds no escape and decodes to
  itself; where the table has it, it is one of the alternatives as written.
\<close>

lemma alternative_decodes:
  assumes "toLowerCase c \<in> set alts" and "set alts \<subseteq> set (map fst collections)"
  shows "decode_param c = Inr c"
proof (rule decode_param_lower)
  from assms collection_ids_plain show "CHR ''%'' \<notin> set (toLowerCase c)" by blast
qed

lemma alternative_exact:
  assumes "toLowerCase c \<in> set alts" and "set alts \<subseteq> set (map fst collections)"
    and "lookup c = Some coll"
  shows "c \<in> set alts"
proof -
  have "toLowerCase c = c"
  proof (rule lookup_lower)
    from assms(3) show "lookup c \<noteq> None" by simp
    from assms(1,2) show "toLowerCase c \<in> set (map fst collections)" by blast
  qed
  with assms(1) show ?thesis by simp
qed

lemma lookup_vms:
  "lookup ''vms'' = Some (Descriptor \<lparr>collection_id = ''vms'', collection_type = ''VM''\<rparr>)"
  by code_simp

lemma lookup_vdis:
  "lookup ''vdis'' = Some (Descriptor \<lparr>collection_id = ''vdis'', collection_type = ''VDI''\<rparr>)"
  by code_simp

subsection \<open>Decoding the part of a segment before an extension\<close>

lemma unescape_plain_char:
  assumes "c \<noteq> CHR ''%''"
  shows "unescape (c # cs) = map_option ((#) (Raw c)) (unescape cs)"
proof (cases cs)
  case Nil
  with assms show ?thesis by simp
next
  case (Cons h t)
  with assms show ?thesis by (cases t) simp_all
qed

lemma hex_digit_dot: "hex_digit (CHR ''.'') = None"
  by code_simp

lemma unescape_escape:
  assumes "unescape (CHR ''%'' # cs) = Some os"
  shows "\<exists>h l cs' x y os1. cs = h # l # cs' \<and> hex_digit h = Some x \<and> hex_digit l = Some y
           \<and> unescape cs' = Some os1 \<and> os = Escaped (16 * x + y) # os1"
proof (cases cs)
  case Nil
  with assms show ?thesis by simp
next
  case (Cons h t)
  with assms show ?thesis by (cases t) (auto split: option.splits)
qed

lemma unescape_before_dot:
  assumes "unescape (a @ CHR ''.'' # e) = Some os"
  shows "\<exists>os' rest. unescape a = Some os' \<and> os = os' @ Raw (CHR ''.'') # rest"
  using assms
proof (induction "length a" arbitrary: a os rule: less_induct)
  case less
  show ?case
  proof (cases a)
    case Nil
    with less.prems have "os = Raw (CHR ''.'') # the (unescape e)"
      by (auto simp: unescape_plain_char)
    with Nil show ?thesis by simp
  next
    case (Cons c cs)
    show ?thesis
    proof (cases "c = CHR ''%''")
      case False
      with less.prems Cons obtain os1 where u: "unescape (cs @ CHR ''.'' # e) = Some os1"
        and os: "os = Raw c # os1"
        by (auto simp: unescape_plain_char)
      from Cons have "length cs < length a" by simp
      from less.hyps [OF this u]
      obtain os' rest where "unescape cs = Some os'" "os1 = os' @ Raw (CHR ''.'') # rest"
        by auto
      with False os Cons show ?thesis by (simp add: unescape_plain_char)
    next
      case True
      with less.prems Cons have "unescape (CHR ''%'' # (cs @ CHR ''.'' # e)) = Some os" by simp
      from unescape_escape [OF this]
      obtain h l cs' x y os1 where eq: "cs @ CHR ''.'' # e = h # l # cs'"
        and hx: "hex_digit h = Some x" and hy: "hex_digit l = Some y"
        and u: "unescape cs' = Some os1" and os: "os = Escaped (16 * x + y) # os1"
        by blast
      from hx hy hex_digit_dot have nd: "h \<noteq> CHR ''.''" "l \<noteq> CHR ''.''" by auto
      obtain cs0 where cs: "cs = h # l # cs0" and cs': "cs' = cs0 @ CHR ''.'' # e"
      proof (cases cs)
        case Nil
        with eq nd show ?thesis by simp
      next
        case c1: (Cons h1 t1)
        show ?thesis
        proof (cases t1)
          case Nil
          with eq nd c1 show ?thesis by simp
        next
          case c2: (Cons l1 t2)
          with eq c1 that show ?thesis by simp
        qed
      qed
      from cs Cons have "length cs0 < length a" by simp
      from less.hyps [OF this u [unfolded cs']]
      obtain os' rest where "unescape cs0 = Some os'" "os1 = os' @ Raw (CHR ''.'') # rest"
        by auto
      with True os Cons cs hx hy show ?thesis by simp
    qed
  qed
qed

lemma utf8_before_raw:
  assumes "utf8 n r (os @ Raw c # rest) = Some t"
  shows "\<exists>t'. utf8 n r os = Some t'"
  using assms
  by (induction n r os arbitrary: t rule: utf8.induct) (auto split: if_splits)

lemma decode_param_before_dot:
  assumes "decode_param (a @ CHR ''.'' # e) = Inr t"
  shows "\<exists>t'. decode_param a = Inr t'"
proof -
  from assms obtain os where u: "unescape (a @ CHR ''.'' # e) = Some os"
    and "utf8 0 (0, 0) os \<noteq> None"
    by (auto simp: decode_param_def decodeURIComponent_def split: option.splits)
  then obtain t0 where t0: "utf8 0 (0, 0) os = Some t0" by auto
  from unescape_before_dot [OF u]
  obtain os' rest where a: "unescape a = Some os'" and os: "os = os' @ Raw (CHR ''.'') # rest"
    by auto
  from t0 os utf8_before_raw [of 0 "(0, 0)" os' "CHR ''.''" rest t0]
  obtain t' where "utf8 0 (0, 0) os' = Some t'" by auto
  with a show ?thesis
    by (simp add: decode_param_def decodeURIComponent_def)
qed

lemma split_extension_parts:
  assumes "split_extension exts s = Some (ob, ext)"
  shows "s = ob @ CHR ''.'' # ext \<and> toLowerCase ext \<in> set exts \<and> ob \<noteq> []"
proof -
  from assms obtain e where f: "find (\<lambda>e. length e + 1 < length s
           \<and> toLowerCase (drop (length s - (length e + 1)) s) = CHR ''.'' # e) exts = Some e"
    and ob: "ob = take (length s - (length e + 1)) s"
    and ext: "ext = drop (length s - length e) s"
    by (auto simp: split_extension_def split: option.splits)
  from f have e: "e \<in> set exts" and len: "length e + 1 < length s"
    and low: "toLowerCase (drop (length s - (length e + 1)) s) = CHR ''.'' # e"
    by (auto simp: find_Some_iff)
  let ?k = "length s - (length e + 1)"
  from low obtain d rest where d: "drop ?k s = d # rest" and dl: "to_lower_char d = CHR ''.''"
    and rl: "toLowerCase rest = e"
    by (cases "drop ?k s") (auto simp: toLowerCase_def)
  from dl have "d = CHR ''.''"
    by (auto simp: to_lower_char_def split: option.splits if_splits dest: map_of_SomeD)
  moreover from d have "rest = drop (Suc ?k) s"
    by (metis drop_Suc drop_drop list.sel(3) plus_1_eq_Suc tl_drop)
  moreover from len have "Suc ?k = length s - length e" by simp
  ultimately have "drop ?k s = CHR ''.'' # ext" and "toLowerCase ext = e"
    using d rl ext by simp_all
  moreover have "s = take ?k s @ drop ?k s" by simp
  ultimately show ?thesis using ob e len by auto
qed

lemma extension_decodes:
  assumes "toLowerCase ext \<in> set [''vhd'', ''raw'', ''xva'']"
  shows "decode_param ext = Inr ext"
proof (rule decode_param_lower)
  from assms show "CHR ''%'' \<notin> set (toLowerCase ext)" by auto
qed

subsection \<open>The routes a request of two segments can enter\<close>

lemma two_segments_not_entered:
  assumes "segments req = [c, f]"
  shows "try_route env app req R_index = None" "try_route env app req R_list = None"
    "try_route env app req R_import = None"
  using assms by (simp_all add: try_route_def)

lemma two_segments_decoded:
  assumes "match_path r [c, f] = Some raw"
    and "decode_param c = Inr c'" and "decode_param f = Inr f'"
  shows "\<exists>ps. decode_params raw = Inr ps"
proof (cases r)
  case R_export_vdi
  with assms(1) obtain ob ext where s: "split_extension [''vhd'', ''raw''] f = Some (ob, ext)"
    and raw: "raw = [c, ob, ext]"
    by (auto split: if_splits option.splits)
  from split_extension_parts [OF s]
  have f: "f = ob @ CHR ''.'' # ext" and e: "toLowerCase ext \<in> set [''vhd'', ''raw'']"
    by simp_all
  from assms(3) f decode_param_before_dot [of ob ext f']
  obtain ob' where "decode_param ob = Inr ob'" by auto
  moreover from e have "decode_param ext = Inr ext"
    by (intro extension_decodes) auto
  ultimately show ?thesis using raw assms(2) by simp
next
  case R_export_vm
  with assms(1) obtain ob ext where s: "split_extension [''xva''] f = Some (ob, ext)"
    and raw: "raw = [c, ob]"
    by (auto split: if_splits option.splits)
  from split_extension_parts [OF s]
  have f: "f = ob @ CHR ''.'' # ext"
    by simp_all
  from assms(3) f decode_param_before_dot [of ob ext f']
  obtain ob' where "decode_param ob = Inr ob'" by auto
  then show ?thesis using raw assms(2) by simp
qed (use assms in \<open>auto split: if_splits\<close>)

lemma two_segments_other_method:
  assumes "segments req = [c, f]" and "decode_param c = Inr c'" and "decode_param f = Inr f'"
    and "req_method req \<noteq> route_method r"
  shows "try_route env app req r = None"
proof (cases "match_path r (segments req)")
  case None
  then show ?thesis by (rule try_route_no_match)
next
  case (Some raw)
  with assms(1) have "match_path r [c, f] = Some raw" by simp
  from two_segments_decoded [OF this assms(2,3)]
  obtain ps where "decode_params raw = Inr ps" ..
  with Some assms(4) show ?thesis by (simp add: try_route_def)
qed

text \<open>
  A route never runs a handler for a request of another method; whatever the
  parameters decode to, it then leaves no event.
\<close>

lemma other_method_no_handler:
  assumes "req_method req \<noteq> route_method r"
  shows "try_route env app req r = None
         \<or> (\<exists>e. try_route env app req r = Some (Result None [] (Forwarded e)))"
  using assms by (auto simp: try_route_def split: option.splits sum.splits)

subsection \<open>The DELETE route\<close>

lemma sendStatus_200: "sendStatus 200 = Res_sendStatus 200 ''OK''"
  by (simp add: sendStatus_def status_message_def)

lemma sendStatus_401: "sendStatus 401 = Res_sendStatus 401 ''Unauthorized''"
  by (simp add: sendStatus_def status_message_def)

lemma api_delete_cases:
  "wrap (api_delete app x) =
     (case destroy app x of
        Inl e \<Rightarrow> ([Call_destroy x], Forwarded e)
      | Inr _ \<Rightarrow> ([Call_destroy x, Res_sendStatus 200 ''OK''], Ended))"
  by (simp add: api_delete_def wrap_def sendStatus_200 split: sum.split)

lemma first_route_no_handler:
  assumes "\<forall>r \<in> set rs. try_route env app req r = None
             \<or> (\<exists>e. try_route env app req r = Some (Result None [] (Forwarded e)))"
  shows "\<exists>en. first_route env app req rs = Result None [] en"
  using assms by (induction rs) (auto split: option.splits)

lemma delete_handler_runs:
  assumes r: "rest_api env app req = Result (Some R_delete) evs en"
  shows "req_method req = DELETE
      \<and> (\<exists>c ob ob' coll xo x.
            segments req = [c, ob]
            \<and> c \<in> set [''vdis'', ''vdi-snapshots'', ''vms'', ''vm-snapshots'', ''vm-templates'']
            \<and> lookup c = Some coll
            \<and> decode_param ob = Inr ob'
            \<and> param_object app (Some coll) ob' = Next (xo, x)
            \<and> (evs, en) = (case destroy app x of
                             Inl e \<Rightarrow> ([Call_destroy x], Forwarded e)
                           | Inr _ \<Rightarrow> ([Call_destroy x, Res_sendStatus 200 ''OK''], Ended)))"
proof
  from rest_api_handler [OF r]
  have t: "try_route env app req R_delete = Some (Result (Some R_delete) evs en)" by simp
  from try_route_handler [OF t] show "req_method req = DELETE" by simp
  from try_route_handler [OF t] obtain raw ps
    where m: "match_path R_delete (segments req) = Some raw"
      and d: "decode_params raw = Inr ps"
      and run: "run env app req R_delete ps = Some (Result (Some R_delete) evs en)"
    by auto
  from m obtain c ob where segs: "segments req = [c, ob]"
    and low: "toLowerCase c \<in> set [''vdis'', ''vdi-snapshots'', ''vms'', ''vm-snapshots'', ''vm-templates'']"
    and raw: "raw = [c, ob]"
    by (auto split: if_splits list.splits)
  have dc: "decode_param c = Inr c"
    by (rule alternative_decodes [OF low pattern_collections(1)])
  from d have "decode_params [c, ob] = Inr ps" by (simp only: raw)
  from this [unfolded decode_params_two] dc
  obtain ob' where dob: "decode_param ob = Inr ob'" and ps: "ps = [c, ob']"
    by auto
  from run ps obtain coll xo x where c: "param_collection c = Next coll"
    and o: "param_object app (Some coll) ob' = Next (xo, x)"
    and h: "wrap (api_delete app x) = (evs, en)"
    by (auto simp: on_param_eq_handler handled_eq)
  from c have l: "lookup c = Some coll"
    by (simp add: param_collection_def split: option.splits)
  have mem: "c \<in> set [''vdis'', ''vdi-snapshots'', ''vms'', ''vm-snapshots'', ''vm-templates'']"
    by (rule alternative_exact [OF low pattern_collections(1) l])
  from h [symmetric] have e: "(evs, en) = (case destroy app x of
                             Inl e \<Rightarrow> ([Call_destroy x], Forwarded e)
                           | Inr _ \<Rightarrow> ([Call_destroy x, Res_sendStatus 200 ''OK''], Ended))"
    by (simp only: api_delete_cases)
  show "\<exists>c ob ob' coll xo x.
            segments req = [c, ob]
            \<and> c \<in> set [''vdis'', ''vdi-snapshots'', ''vms'', ''vm-snapshots'', ''vm-templates'']
            \<and> lookup c = Some coll
            \<and> decode_param ob = Inr ob'
            \<and> param_object app (Some coll) ob' = Next (xo, x)
            \<and> (evs, en) = (case destroy app x of
                             Inl e \<Rightarrow> ([Call_destroy x], Forwarded e)
                           | Inr _ \<Rightarrow> ([Call_destroy x, Res_sendStatus 200 ''OK''], Ended))"
    by (intro exI [of _ c] exI [of _ ob] exI [of _ ob'] exI [of _ coll] exI [of _ xo]
              exI [of _ x] conjI)
       (rule segs mem l dob o e)+
qed

lemma delete_not_eligible:
  assumes segs: "segments req = [c, ob]"
    and no: "c \<notin> set [''vdis'', ''vdi-snapshots'', ''vms'', ''vm-snapshots'', ''vm-templates'']"
  shows "try_route env app req R_delete = None
         \<or> ((\<forall>ob'. decode_param ob \<noteq> Inr ob')
            \<and> (\<exists>e. try_route env app req R_delete = Some (Result None [] (Forwarded e))))"
proof (cases "toLowerCase c \<in> set [''vdis'', ''vdi-snapshots'', ''vms'', ''vm-snapshots'', ''vm-templates''] \<and> ob \<noteq> []")
  case False
  with segs have "match_path R_delete (segments req) = None" by auto
  then show ?thesis by (simp add: try_route_no_match)
next
  case True
  then have low: "toLowerCase c \<in> set [''vdis'', ''vdi-snapshots'', ''vms'', ''vm-snapshots'', ''vm-templates'']"
    by simp
  from True segs have m: "match_path R_delete (segments req) = Some [c, ob]" by simp
  have dc: "decode_param c = Inr c"
    by (rule alternative_decodes [OF low pattern_collections(1)])
  have l: "lookup c = None"
  proof (cases "lookup c")
    case (Some coll)
    from alternative_exact [OF low pattern_collections(1) Some] no show ?thesis by simp
  qed simp
  show ?thesis
  proof (cases "decode_param ob")
    case (Inl e)
    with m dc show ?thesis by (simp add: try_route_def)
  next
    case (Inr ob')
    with m dc l show ?thesis
      by (simp add: try_route_def param_collection_def on_param_def)
  qed
qed

lemma delete_no_handler:
  assumes a: "req_method req = DELETE \<and> authenticate app req = Pass \<and> segments req = [c, ob]
          \<and> c \<notin> set [''vdis'', ''vdi-snapshots'', ''vms'', ''vm-snapshots'', ''vm-templates'']"
  shows "\<exists>en. rest_api env app req = Result None [] en"
proof -
  have "\<forall>r \<in> set routes. try_route env app req r = None
             \<or> (\<exists>e. try_route env app req r = Some (Result None [] (Forwarded e)))"
  proof
    fix r
    assume "r \<in> set routes"
    show "try_route env app req r = None
             \<or> (\<exists>e. try_route env app req r = Some (Result None [] (Forwarded e)))"
    proof (cases "r = R_delete")
      case True
      with a delete_not_eligible [of req c ob env app] show ?thesis by auto
    next
      case False
      with a have "req_method req \<noteq> route_method r" by (cases r) simp_all
      then show ?thesis by (rule other_method_no_handler)
    qed
  qed
  from first_route_no_handler [OF this] a show ?thesis
    by (simp add: rest_api_def)
qed

lemma delete_unmatched:
  assumes a: "req_method req = DELETE \<and> authenticate app req = Pass \<and> segments req = [c, ob]
          \<and> c \<notin> set [''vdis'', ''vdi-snapshots'', ''vms'', ''vm-snapshots'', ''vm-templates'']"
    and d: "decode_param c = Inr c' \<and> decode_param ob = Inr ob'"
  shows "rest_api env app req = Result None [] Unmatched"
proof -
  from a have segs: "segments req = [c, ob]" by simp
  have other: "try_route env app req r = None" if "r \<noteq> R_delete" for r
  proof (rule two_segments_other_method [OF segs])
    from d show "decode_param c = Inr c'" "decode_param ob = Inr ob'" by simp_all
    from a that show "req_method req \<noteq> route_method r" by (cases r) simp_all
  qed
  from a d delete_not_eligible [of req c ob env app]
  have "try_route env app req R_delete = None" by auto
  with a other show ?thesis
    by (simp add: rest_api_def routes_def)
qed

lemma delete_matched:
  assumes a: "req_method req = DELETE \<and> authenticate app req = Pass \<and> segments req = [c, ob]
          \<and> c \<in> set [''vdis'', ''vdi-snapshots'', ''vms'', ''vm-snapshots'', ''vm-templates'']
          \<and> ob \<noteq> [] \<and> lookup c = Some coll \<and> decode_param ob = Inr ob'
          \<and> param_object app (Some coll) ob' = Next (xo, x)
          \<and> destroy app x = Inr ()"
  shows "rest_api env app req
           = Result (Some R_delete) [Call_destroy x, Res_sendStatus 200 ''OK''] Ended"
proof -
  from a have segs: "segments req = [c, ob]" by simp
  from a pattern_collections(1) collection_ids_plain
  have low: "toLowerCase c = c" and plain: "CHR ''%'' \<notin> set c" by blast+
  from plain have dc: "decode_param c = Inr c" by (rule decode_param_plain)
  have other: "try_route env app req r = None" if "r \<noteq> R_delete" for r
  proof (rule two_segments_other_method [OF segs dc])
    from a show "decode_param ob = Inr ob'" by simp
    from a that show "req_method req \<noteq> route_method r" by (cases r) simp_all
  qed
  from a low have m: "match_path R_delete (segments req) = Some [c, ob]" by simp
  from a dc have "decode_params [c, ob] = Inr [c, ob']" by simp
  from try_route_run [where env = env and app = app, OF m this] a
  have "try_route env app req R_delete
          = Some (Result (Some R_delete) [Call_destroy x, Res_sendStatus 200 ''OK''] Ended)"
    by (simp add: param_collection_def on_param_def handled_def api_delete_cases)
  with a other show ?thesis
    by (simp add: rest_api_def routes_def)
qed

lemma demo_param_object_vm:
  "param_object demo_app (Some (Descriptor \<lparr>collection_id = ''vms'', collection_type = ''VM''\<rparr>)) ''vm-1''
     = Next (demo_vm, ''vm-1'')"
  by (simp add: param_object_def demo_app_def demo_store_def demo_vm_def)

text \<open>
  C9, as amended. The handler of the DELETE route runs only for a request \<open>DELETE /c/ob\<close>
  with \<open>c\<close> one of \<open>vdis\<close>, \<open>vdi-snapshots\<close>, \<open>vms\<close>, \<open>vm-snapshots\<close>, \<open>vm-templates\<close>
  as written and \<open>ob\<close> decoding to an object the parameter handler resolves. An
  authenticated \<open>DELETE\<close> on any other first segment runs no handler and leaves no
  event, and matches no route where both segments can be decoded. Where the route
  matches, the handler calls \<open>$destroy\<close> on the object and then answers with
  \<open>sendStatus(200)\<close>, the status 200 with the body \<open>OK\<close>, and nothing else (or passes on
  the error of \<open>$destroy\<close>).
\<close>

theorem delete_route:
  "(\<forall>evs en. rest_api env app req = Result (Some R_delete) evs en \<longrightarrow>
      req_method req = DELETE
      \<and> (\<exists>c ob ob' coll xo x.
            segments req = [c, ob]
            \<and> c \<in> set [''vdis'', ''vdi-snapshots'', ''vms'', ''vm-snapshots'', ''vm-templates'']
            \<and> lookup c = Some coll
            \<and> decode_param ob = Inr ob'
            \<and> param_object app (Some coll) ob' = Next (xo, x)
            \<and> (evs, en) = (case destroy app x of
                             Inl e \<Rightarrow> ([Call_destroy x], Forwarded e)
                           | Inr _ \<Rightarrow> ([Call_destroy x, Res_sendStatus 200 ''OK''], Ended))))
   \<and> (\<forall>c ob. req_method req = DELETE \<and> authenticate app req = Pass \<and> segments req = [c, ob]
          \<and> c \<notin> set [''vdis'', ''vdi-snapshots'', ''vms'', ''vm-snapshots'', ''vm-templates'']
        \<longrightarrow> (\<exists>en. rest_api env app req = Result None [] en))
   \<and> (\<forall>c ob c' ob'. req_method req = DELETE \<and> authenticate app req = Pass \<and> segments req = [c, ob]
          \<and> c \<notin> set [''vdis'', ''vdi-snapshots'', ''vms'', ''vm-snapshots'', ''vm-templates'']
          \<and> decode_param c = Inr c' \<and> decode_param ob = Inr ob'
        \<longrightarrow> rest_api env app req = Result None [] Unmatched)
   \<and> (\<forall>c ob ob' coll xo x. req_method req = DELETE \<and> authenticate app req = Pass \<and> segments req = [c, ob]
          \<and> c \<in> set [''vdis'', ''vdi-snapshots'', ''vms'', ''vm-snapshots'', ''vm-templates'']
          \<and> ob \<noteq> [] \<and> lookup c = Some coll \<and> decode_param ob = Inr ob'
          \<and> param_object app (Some coll) ob' = Next (xo, x)
          \<and> destroy app x = Inr ()
        \<longrightarrow> rest_api env app req
              = Result (Some R_delete) [Call_destroy x, Res_sendStatus 200 ''OK''] Ended)"
proof (intro conjI allI impI)
  fix evs en
  assume "rest_api env app req = Result (Some R_delete) evs en"
  from delete_handler_runs [OF this]
  show "req_method req = DELETE"
    and "\<exists>c ob ob' coll xo x.
            segments req = [c, ob]
            \<and> c \<in> set [''vdis'', ''vdi-snapshots'', ''vms'', ''vm-snapshots'', ''vm-templates'']
            \<and> lookup c = Some coll
            \<and> decode_param ob = Inr ob'
            \<and> param_object app (Some coll) ob' = Next (xo, x)
            \<and> (evs, en) = (case destroy app x of
                             Inl e \<Rightarrow> ([Call_destroy x], Forwarded e)
                           | Inr _ \<Rightarrow> ([Call_destroy x, Res_sendStatus 200 ''OK''], Ended))"
    by (rule conjunct1, rule conjunct2)
next
  fix c ob
  assume "req_method req = DELETE \<and> authenticate app req = Pass \<and> segments req = [c, ob]
          \<and> c \<notin> set [''vdis'', ''vdi-snapshots'', ''vms'', ''vm-snapshots'', ''vm-templates'']"
  then show "\<exists>en. rest_api env app req = Result None [] en"
    by (rule delete_no_handler)
next
  fix c ob c' ob'
  assume a: "req_method req = DELETE \<and> authenticate app req = Pass \<and> segments req = [c, ob]
          \<and> c \<notin> set [''vdis'', ''vdi-snapshots'', ''vms'', ''vm-snapshots'', ''vm-templates'']
          \<and> decode_param c = Inr c' \<and> decode_param ob = Inr ob'"
  show "rest_api env app req = Result None [] Unmatched"
  proof (rule delete_unmatched)
    from a show "req_method req = DELETE \<and> authenticate app req = Pass \<and> segments req = [c, ob]
          \<and> c \<notin> set [''vdis'', ''vdi-snapshots'', ''vms'', ''vm-snapshots'', ''vm-templates'']"
      by simp
    from a show "decode_param c = Inr c' \<and> decode_param ob = Inr ob'"
      by simp
  qed
next
  fix c ob ob' coll xo x
  assume "req_method req = DELETE \<and> authenticate app req = Pass \<and> segments req = [c, ob]
          \<and> c \<in> set [''vdis'', ''vdi-snapshots'', ''vms'', ''vm-snapshots'', ''vm-templates'']
          \<and> ob \<noteq> [] \<and> lookup c = Some coll \<and> decode_param ob = Inr ob'
          \<and> param_object app (Some coll) ob' = Next (xo, x)
          \<and> destroy app x = Inr ()"
  then show "rest_api env app req
               = Result (Some R_delete) [Call_destroy x, Res_sendStatus 200 ''OK''] Ended"
    by (rule delete_matched)
qed

theorem delete_route_witness:
  "rest_api demo_env demo_app (demo_request\<lparr>req_method := DELETE, segments := [''vms'', ''vm-1'']\<rparr>)
     = Result (Some R_delete) [Call_destroy ''vm-1'', Res_sendStatus 200 ''OK''] Ended
   \<and> req_method (demo_request\<lparr>req_method := DELETE, segments := [''vms'', ''vm-1'']\<rparr>) = DELETE
   \<and> ''hosts'' \<notin> set [''vdis'', ''vdi-snapshots'', ''vms'', ''vm-snapshots'', ''vm-templates'']
   \<and> rest_api demo_env demo_app (demo_request\<lparr>req_method := DELETE, segments := [''hosts'', ''host-1'']\<rparr>)
     = Result None [] Unmatched
   \<and> decode_param ''%76ms'' = Inr ''vms''
   \<and> rest_api demo_env demo_app (demo_request\<lparr>req_method := DELETE, segments := [''%76ms'', ''vm-1'']\<rparr>)
     = Result None [] Unmatched
   \<and> decode_param ''%zz'' = Inl (URI_error ''Failed to decode param %zz'')
   \<and> (\<exists>en. rest_api demo_env demo_app (demo_request\<lparr>req_method := DELETE, segments := [''hosts'', ''%zz'']\<rparr>)
          = Result None [] en)"
proof -
  let ?vm = "demo_request\<lparr>req_method := DELETE, segments := [''vms'', ''vm-1'']\<rparr>"
  let ?host = "demo_request\<lparr>req_method := DELETE, segments := [''hosts'', ''host-1'']\<rparr>"
  let ?enc = "demo_request\<lparr>req_method := DELETE, segments := [''%76ms'', ''vm-1'']\<rparr>"
  let ?bad = "demo_request\<lparr>req_method := DELETE, segments := [''hosts'', ''%zz'']\<rparr>"
  let ?coll = "Descriptor \<lparr>collection_id = ''vms'', collection_type = ''VM''\<rparr>"
  have other: "''hosts'' \<notin> set [''vdis'', ''vdi-snapshots'', ''vms'', ''vm-snapshots'', ''vm-templates'']"
    by simp
  have d_vm: "decode_param ''vm-1'' = Inr ''vm-1''" "decode_param ''hosts'' = Inr ''hosts''"
    "decode_param ''host-1'' = Inr ''host-1''"
    by (simp_all add: decode_param_plain)
  have d_bad: "decode_param ''%zz'' = Inl (URI_error ''Failed to decode param %zz'')"
    by code_simp
  have hyp_vm:
    "req_method ?vm = DELETE \<and> authenticate demo_app ?vm = Pass \<and> segments ?vm = [''vms'', ''vm-1'']
     \<and> ''vms'' \<in> set [''vdis'', ''vdi-snapshots'', ''vms'', ''vm-snapshots'', ''vm-templates'']
     \<and> ''vm-1'' \<noteq> [] \<and> lookup ''vms'' = Some ?coll
     \<and> decode_param ''vm-1'' = Inr ''vm-1''
     \<and> param_object demo_app (Some ?coll) ''vm-1'' = Next (demo_vm, ''vm-1'')
     \<and> destroy demo_app ''vm-1'' = Inr ()"
    using lookup_vms demo_param_object_vm d_vm(1)
    by (simp add: authenticate_def demo_app_def demo_request_def token_def)
  have hyp_host:
    "req_method ?host = DELETE \<and> authenticate demo_app ?host = Pass
     \<and> segments ?host = [''hosts'', ''host-1'']
     \<and> ''hosts'' \<notin> set [''vdis'', ''vdi-snapshots'', ''vms'', ''vm-snapshots'', ''vm-templates'']
     \<and> decode_param ''hosts'' = Inr ''hosts'' \<and> decode_param ''host-1'' = Inr ''host-1''"
    using d_vm(2,3)
    by (simp add: authenticate_def demo_app_def demo_request_def token_def)
  have hyp_enc:
    "req_method ?enc = DELETE \<and> authenticate demo_app ?enc = Pass
     \<and> segments ?enc = [''%76ms'', ''vm-1'']
     \<and> ''%76ms'' \<notin> set [''vdis'', ''vdi-snapshots'', ''vms'', ''vm-snapshots'', ''vm-templates'']
     \<and> decode_param ''%76ms'' = Inr ''vms'' \<and> decode_param ''vm-1'' = Inr ''vm-1''"
    using d_vm(1) decode_encoded_vms
    by (simp add: authenticate_def demo_app_def demo_request_def token_def)
  have hyp_bad:
    "req_method ?bad = DELETE \<and> authenticate demo_app ?bad = Pass
     \<and> segments ?bad = [''hosts'', ''%zz'']
     \<and> ''hosts'' \<notin> set [''vdis'', ''vdi-snapshots'', ''vms'', ''vm-snapshots'', ''vm-templates'']"
    by (simp add: authenticate_def demo_app_def demo_request_def token_def)
  note vm = delete_route [of demo_env demo_app ?vm]
  note host = delete_route [of demo_env demo_app ?host]
  note enc = delete_route [of demo_env demo_app ?enc]
  note bad = delete_route [of demo_env demo_app ?bad]
  have 1: "rest_api demo_env demo_app ?vm
             = Result (Some R_delete) [Call_destroy ''vm-1'', Res_sendStatus 200 ''OK''] Ended"
    by (rule vm [THEN conjunct2, THEN conjunct2, THEN conjunct2, rule_format, OF hyp_vm])
  have 2: "req_method ?vm = DELETE"
    by (rule vm [THEN conjunct1, rule_format, OF 1, THEN conjunct1])
  have 3: "rest_api demo_env demo_app ?host = Result None [] Unmatched"
    by (rule host [THEN conjunct2, THEN conjunct2, THEN conjunct1, rule_format, OF hyp_host])
  have 4: "rest_api demo_env demo_app ?enc = Result None [] Unmatched"
    by (rule enc [THEN conjunct2, THEN conjunct2, THEN conjunct1, rule_format, OF hyp_enc])
  have 5: "\<exists>en. rest_api demo_env demo_app ?bad = Result None [] en"
    by (rule bad [THEN conjunct2, THEN conjunct1, rule_format, OF hyp_bad])
  show ?thesis
    by (intro conjI) (rule 1 2 other 3 decode_encoded_vms 4 d_bad 5)+
qed

text \<open>
  C9, as stated, fails on \<open>DELETE /rest/v0/vms/vm-1\<close>: the route matches and the object
  is destroyed, but the response that \<open>sendStatus(200)\<close> sends has the body \<open>OK\<close>, which
  is not empty.
\<close>

theorem delete_route_counterexample:
  "rest_api demo_env demo_app (demo_request\<lparr>req_method := DELETE, segments := [''vms'', ''vm-1'']\<rparr>)
     = Result (Some R_delete) [Call_destroy ''vm-1'', Res_sendStatus 200 ''OK''] Ended
   \<and> (sendStatus 200 :: string event) = Res_sendStatus 200 ''OK''
   \<and> ''OK'' \<noteq> []"
proof -
  let ?vm = "demo_request\<lparr>req_method := DELETE, segments := [''vms'', ''vm-1'']\<rparr>"
  let ?coll = "Descriptor \<lparr>collection_id = ''vms'', collection_type = ''VM''\<rparr>"
  have "decode_param ''vm-1'' = Inr ''vm-1''"
    by (simp add: decode_param_plain)
  then have
    "req_method ?vm = DELETE \<and> authenticate demo_app ?vm = Pass \<and> segments ?vm = [''vms'', ''vm-1'']
     \<and> ''vms'' \<in> set [''vdis'', ''vdi-snapshots'', ''vms'', ''vm-snapshots'', ''vm-templates'']
     \<and> ''vm-1'' \<noteq> [] \<and> lookup ''vms'' = Some ?coll
     \<and> decode_param ''vm-1'' = Inr ''vm-1''
     \<and> param_object demo_app (Some ?coll) ''vm-1'' = Next (demo_vm, ''vm-1'')
     \<and> destroy demo_app ''vm-1'' = Inr ()"
    using lookup_vms demo_param_object_vm
    by (simp add: authenticate_def demo_app_def demo_request_def token_def)
  from delete_matched [OF this, of demo_env] show ?thesis
    by (simp add: sendStatus_200)
qed

text \<open>
  C4. The token is the cookie \<open>authenticationToken\<close>, or the cookie \<open>token\<close> where that
  one is absent. Where authentication fails with invalid credentials, or gives a user
  whose permission is not \<open>admin\<close>, the router answers \<open>sendStatus(401)\<close> and runs no
  handler of any route; and whenever the handler of a route runs, the request was
  authenticated as a user whose permission is \<open>admin\<close>.
\<close>

theorem unauthorized_reaches_no_handler:
  "(authenticateUser app (token req) = Rejected Invalid_credentials
      \<longrightarrow> rest_api env app req = Result None [Res_sendStatus 401 ''Unauthorized''] Ended)
   \<and> (\<forall>u. authenticateUser app (token req) = Fulfilled u \<and> permission u \<noteq> ''admin''
      \<longrightarrow> rest_api env app req = Result None [Res_sendStatus 401 ''Unauthorized''] Ended)
   \<and> (\<forall>h evs en. rest_api env app req = Result (Some h) evs en
      \<longrightarrow> (\<exists>u. authenticateUser app (token req) = Fulfilled u \<and> permission u = ''admin''))
   \<and> token req = (case cookies req ''authenticationToken'' of
                    Some t \<Rightarrow> Some t
                  | None \<Rightarrow> cookies req ''token'')"
proof (intro conjI allI impI)
  assume "authenticateUser app (token req) = Rejected Invalid_credentials"
  then show "rest_api env app req = Result None [Res_sendStatus 401 ''Unauthorized''] Ended"
    by (simp add: rest_api_def authenticate_def sendStatus_401)
next
  fix u
  assume "authenticateUser app (token req) = Fulfilled u \<and> permission u \<noteq> ''admin''"
  then show "rest_api env app req = Result None [Res_sendStatus 401 ''Unauthorized''] Ended"
    by (simp add: rest_api_def authenticate_def sendStatus_401)
next
  fix h evs en
  assume "rest_api env app req = Result (Some h) evs en"
  from rest_api_handler [OF this]
  show "\<exists>u. authenticateUser app (token req) = Fulfilled u \<and> permission u = ''admin''"
    by (simp add: authenticate_Pass)
next
  show "token req = (case cookies req ''authenticationToken'' of
                    Some t \<Rightarrow> Some t
                  | None \<Rightarrow> cookies req ''token'')"
    by (simp add: token_def)
qed

theorem unauthorized_reaches_no_handler_witness:
  "authenticateUser demo_app (token (demo_request\<lparr>cookies := Map.empty\<rparr>)) = Rejected Invalid_credentials
   \<and> rest_api demo_env demo_app (demo_request\<lparr>cookies := Map.empty\<rparr>)
       = Result None [Res_sendStatus 401 ''Unauthorized''] Ended
   \<and> authenticateUser demo_app (token (demo_request\<lparr>cookies := [''token'' \<mapsto> ''guest'']\<rparr>))
       = Fulfilled \<lparr>permission = ''none''\<rparr>
   \<and> rest_api demo_env demo_app (demo_request\<lparr>cookies := [''token'' \<mapsto> ''guest'']\<rparr>)
       = Result None [Res_sendStatus 401 ''Unauthorized''] Ended
   \<and> rest_api demo_env demo_app (demo_request\<lparr>req_method := DELETE, segments := [''vms'', ''vm-1'']\<rparr>)
       = Result (Some R_delete) [Call_destroy ''vm-1'', Res_sendStatus 200 ''OK''] Ended
   \<and> (\<exists>u. authenticateUser demo_app
             (token (demo_request\<lparr>req_method := DELETE, segments := [''vms'', ''vm-1'']\<rparr>))
            = Fulfilled u \<and> permission u = ''admin'')"
proof -
  let ?anon = "demo_request\<lparr>cookies := Map.empty\<rparr>"
  let ?guest = "demo_request\<lparr>cookies := [''token'' \<mapsto> ''guest'']\<rparr>"
  let ?root = "demo_request\<lparr>req_method := DELETE, segments := [''vms'', ''vm-1'']\<rparr>"
  let ?coll = "Descriptor \<lparr>collection_id = ''vms'', collection_type = ''VM''\<rparr>"
  have a: "authenticateUser demo_app (token ?anon) = Rejected Invalid_credentials"
    by (simp add: demo_app_def demo_request_def token_def)
  have g: "authenticateUser demo_app (token ?guest) = Fulfilled \<lparr>permission = ''none''\<rparr>"
    by (simp add: demo_app_def demo_request_def token_def)
  have g': "authenticateUser demo_app (token ?guest) = Fulfilled \<lparr>permission = ''none''\<rparr>
            \<and> permission \<lparr>permission = ''none''\<rparr> \<noteq> ''admin''"
    using g by simp
  have "decode_param ''vm-1'' = Inr ''vm-1''"
    by (simp add: decode_param_plain)
  then have hyp_vm:
    "req_method ?root = DELETE \<and> authenticate demo_app ?root = Pass
     \<and> segments ?root = [''vms'', ''vm-1'']
     \<and> ''vms'' \<in> set [''vdis'', ''vdi-snapshots'', ''vms'', ''vm-snapshots'', ''vm-templates'']
     \<and> ''vm-1'' \<noteq> [] \<and> lookup ''vms'' = Some ?coll
     \<and> decode_param ''vm-1'' = Inr ''vm-1''
     \<and> param_object demo_app (Some ?coll) ''vm-1'' = Next (demo_vm, ''vm-1'')
     \<and> destroy demo_app ''vm-1'' = Inr ()"
    using lookup_vms demo_param_object_vm
    by (simp add: authenticate_def demo_app_def demo_request_def token_def)
  have run: "rest_api demo_env demo_app ?root
               = Result (Some R_delete) [Call_destroy ''vm-1'', Res_sendStatus 200 ''OK''] Ended"
    by (rule delete_matched [OF hyp_vm])
  have 1: "rest_api demo_env demo_app ?anon = Result None [Res_sendStatus 401 ''Unauthorized''] Ended"
    by (rule unauthorized_reaches_no_handler [of demo_app ?anon demo_env,
               THEN conjunct1, rule_format, OF a])
  have 2: "rest_api demo_env demo_app ?guest = Result None [Res_sendStatus 401 ''Unauthorized''] Ended"
    by (rule unauthorized_reaches_no_handler [of demo_app ?guest demo_env,
               THEN conjunct2, THEN conjunct1, rule_format, OF g'])
  have 3: "\<exists>u. authenticateUser demo_app (token ?root) = Fulfilled u \<and> permission u = ''admin''"
    by (rule unauthorized_reaches_no_handler [of demo_app ?root demo_env,
               THEN conjunct2, THEN conjunct2, THEN conjunct1, rule_format, OF run])
  show ?thesis
    by (intro conjI) (rule a 1 g 2 run 3)+
qed

section \<open>Properties of the export routes\<close>

lemma send_stream_cases:
  "wrap (case send_stream s of (evs, r) \<Rightarrow> (call # evs, r)) =
     (call
      # Res_writeHead (statusCode s) (case statusMessage s of Some m \<Rightarrow> m | None \<Rightarrow> [])
          ((stream_headers s)(''content-disposition'' \<mapsto> ''attachment''))
      # map Res_write (chunks s)
      @ (case failure s of None \<Rightarrow> [Res_end None] | Some e \<Rightarrow> [Res_destroy]),
      case failure s of None \<Rightarrow> Ended | Some e \<Rightarrow> Forwarded e)"
  by (simp add: send_stream_def wrap_def Let_def split: option.split)

lemma export_vdi_handler_runs:
  assumes r: "rest_api env app req = Result (Some R_export_vdi) evs en"
  shows "req_method req = GET
      \<and> (\<exists>c f ob ob' fmt coll xo x.
            segments req = [c, f]
            \<and> c \<in> set [''vdis'', ''vdi-snapshots'']
            \<and> split_extension [''vhd'', ''raw''] f = Some (ob, fmt)
            \<and> lookup c = Some coll
            \<and> decode_param ob = Inr ob'
            \<and> param_object app (Some coll) ob' = Next (xo, x)
            \<and> (evs, en) = wrap (api_export_vdi app x fmt))"
proof
  from rest_api_handler [OF r]
  have t: "try_route env app req R_export_vdi = Some (Result (Some R_export_vdi) evs en)" by simp
  from try_route_handler [OF t] show "req_method req = GET" by simp
  from try_route_handler [OF t] obtain raw ps
    where m: "match_path R_export_vdi (segments req) = Some raw"
      and d: "decode_params raw = Inr ps"
      and run: "run env app req R_export_vdi ps = Some (Result (Some R_export_vdi) evs en)"
    by auto
  from m obtain c f ob fmt where segs: "segments req = [c, f]"
    and low: "toLowerCase c \<in> set [''vdis'', ''vdi-snapshots'']"
    and ext: "split_extension [''vhd'', ''raw''] f = Some (ob, fmt)"
    and raw: "raw = [c, ob, fmt]"
    by (auto split: if_splits option.splits list.splits)
  have dc: "decode_param c = Inr c"
    by (rule alternative_decodes [OF low pattern_collections(2)])
  from split_extension_parts [OF ext] have "toLowerCase fmt \<in> set [''vhd'', ''raw'']" by simp
  then have df: "decode_param fmt = Inr fmt"
    by (intro extension_decodes) auto
  from d have "decode_params [c, ob, fmt] = Inr ps" by (simp only: raw)
  from this [unfolded decode_params_three] dc df
  obtain ob' where dob: "decode_param ob = Inr ob'" and ps: "ps = [c, ob', fmt]"
    by auto
  from run ps obtain coll xo x where c: "param_collection c = Next coll"
    and o: "param_object app (Some coll) ob' = Next (xo, x)"
    and h: "wrap (api_export_vdi app x fmt) = (evs, en)"
    by (auto simp: on_param_eq_handler handled_eq)
  from c have l: "lookup c = Some coll"
    by (simp add: param_collection_def split: option.splits)
  have mem: "c \<in> set [''vdis'', ''vdi-snapshots'']"
    by (rule alternative_exact [OF low pattern_collections(2) l])
  show "\<exists>c f ob ob' fmt coll xo x.
            segments req = [c, f]
            \<and> c \<in> set [''vdis'', ''vdi-snapshots'']
            \<and> split_extension [''vhd'', ''raw''] f = Some (ob, fmt)
            \<and> lookup c = Some coll
            \<and> decode_param ob = Inr ob'
            \<and> param_object app (Some coll) ob' = Next (xo, x)
            \<and> (evs, en) = wrap (api_export_vdi app x fmt)"
    by (intro exI [of _ c] exI [of _ f] exI [of _ ob] exI [of _ ob'] exI [of _ fmt]
              exI [of _ coll] exI [of _ xo] exI [of _ x] conjI)
       (rule segs mem ext l dob o h [symmetric])+
qed

lemma export_vm_handler_runs:
  assumes r: "rest_api env app req = Result (Some R_export_vm) evs en"
  shows "req_method req = GET
      \<and> (\<exists>c f ob ob' ext coll xo x.
            segments req = [c, f]
            \<and> c \<in> set [''vms'', ''vm-snapshots'', ''vm-templates'']
            \<and> split_extension [''xva''] f = Some (ob, ext)
            \<and> lookup c = Some coll
            \<and> decode_param ob = Inr ob'
            \<and> param_object app (Some coll) ob' = Next (xo, x)
            \<and> (evs, en) = wrap (api_export_vm app x (query req ''compress'')))"
proof
  from rest_api_handler [OF r]
  have t: "try_route env app req R_export_vm = Some (Result (Some R_export_vm) evs en)" by simp
  from try_route_handler [OF t] show "req_method req = GET" by simp
  from try_route_handler [OF t] obtain raw ps
    where m: "match_path R_export_vm (segments req) = Some raw"
      and d: "decode_params raw = Inr ps"
      and run: "run env app req R_export_vm ps = Some (Result (Some R_export_vm) evs en)"
    by auto
  from m obtain c f ob ext where segs: "segments req = [c, f]"
    and low: "toLowerCase c \<in> set [''vms'', ''vm-snapshots'', ''vm-templates'']"
    and ext: "split_extension [''xva''] f = Some (ob, ext)"
    and raw: "raw = [c, ob]"
    by (auto split: if_splits option.splits list.splits)
  have dc: "decode_param c = Inr c"
    by (rule alternative_decodes [OF low pattern_collections(3)])
  from d have "decode_params [c, ob] = Inr ps" by (simp only: raw)
  from this [unfolded decode_params_two] dc
  obtain ob' where dob: "decode_param ob = Inr ob'" and ps: "ps = [c, ob']"
    by auto
  from run ps obtain coll xo x where c: "param_collection c = Next coll"
    and o: "param_object app (Some coll) ob' = Next (xo, x)"
    and h: "wrap (api_export_vm app x (query req ''compress'')) = (evs, en)"
    by (auto simp: on_param_eq_handler handled_eq)
  from c have l: "lookup c = Some coll"
    by (simp add: param_collection_def split: option.splits)
  have mem: "c \<in> set [''vms'', ''vm-snapshots'', ''vm-templates'']"
    by (rule alternative_exact [OF low pattern_collections(3) l])
  show "\<exists>c f ob ob' ext coll xo x.
            segments req = [c, f]
            \<and> c \<in> set [''vms'', ''vm-snapshots'', ''vm-templates'']
            \<and> split_extension [''xva''] f = Some (ob, ext)
            \<and> lookup c = Some coll
            \<and> decode_param ob = Inr ob'
            \<and> param_object app (Some coll) ob' = Next (xo, x)
            \<and> (evs, en) = wrap (api_export_vm app x (query req ''compress''))"
    by (intro exI [of _ c] exI [of _ f] exI [of _ ob] exI [of _ ob'] exI [of _ ext]
              exI [of _ coll] exI [of _ xo] exI [of _ x] conjI)
       (rule segs mem ext l dob o h [symmetric])+
qed

text \<open>
  A \<open>GET\<close> of two segments without escapes, where the second one as a whole names no
  object: the route of a single object is left, and the export routes are next.
\<close>

lemma get_two_segments:
  assumes a: "req_method req = GET \<and> authenticate app req = Pass \<and> segments req = [c, f]
          \<and> c \<in> set (map fst collections) \<and> CHR ''%'' \<notin> set f \<and> f \<noteq> []
          \<and> lookup c = Some coll \<and> param_object app (Some coll) f = Next_route"
  shows "rest_api env app req =
           (case try_route env app req R_export_vdi of
              Some res \<Rightarrow> res
            | None \<Rightarrow>
                (case try_route env app req R_export_vm of
                   Some res \<Rightarrow> res
                 | None \<Rightarrow> Result None [] Unmatched))"
proof -
  from a have segs: "segments req = [c, f]" by simp
  from a collection_ids_plain
  have plain: "CHR ''%'' \<notin> set c" and ne: "c \<noteq> []" by blast+
  from plain have dc: "decode_param c = Inr c" by (rule decode_param_plain)
  from a have df: "decode_param f = Inr f" by (simp add: decode_param_plain)
  have other: "try_route env app req r = None" if "r = R_patch \<or> r = R_delete" for r
  proof (rule two_segments_other_method [OF segs dc df])
    from a that show "req_method req \<noteq> route_method r" by auto
  qed
  from a ne have m: "match_path R_get (segments req) = Some [c, f]" by simp
  from dc df have "decode_params [c, f] = Inr [c, f]" by simp
  from try_route_run [where env = env and app = app, OF m this] a
  have "try_route env app req R_get = None"
    by (simp add: param_collection_def on_param_def)
  with a other two_segments_not_entered [OF segs, of env app] show ?thesis
    by (simp add: rest_api_def routes_def split: option.split)
qed

lemma split_extension_plain:
  assumes "split_extension exts f = Some (ob, ext)" and "CHR ''%'' \<notin> set f"
  shows "decode_param ob = Inr ob \<and> decode_param ext = Inr ext \<and> f \<noteq> []"
proof -
  from split_extension_parts [OF assms(1)] have "f = ob @ CHR ''.'' # ext" by simp
  with assms(2) show ?thesis by (simp add: decode_param_plain)
qed

lemma export_vdi_matched:
  assumes a: "req_method req = GET \<and> authenticate app req = Pass \<and> segments req = [c, f]
          \<and> c \<in> set [''vdis'', ''vdi-snapshots''] \<and> CHR ''%'' \<notin> set f
          \<and> split_extension [''vhd'', ''raw''] f = Some (ob, fmt)
          \<and> lookup c = Some coll
          \<and> param_object app (Some coll) f = Next_route
          \<and> param_object app (Some coll) ob = Next (xo, x)"
  shows "rest_api env app req =
           (case wrap (api_export_vdi app x fmt) of (evs, en) \<Rightarrow> Result (Some R_export_vdi) evs en)"
proof -
  from a pattern_collections(2) have c: "c \<in> set (map fst collections)" by blast
  with collection_ids_plain
  have low: "toLowerCase c = c" and plain: "CHR ''%'' \<notin> set c" by blast+
  from plain have dc: "decode_param c = Inr c" by (rule decode_param_plain)
  from a split_extension_plain [of "[''vhd'', ''raw'']" f ob fmt]
  have d: "decode_param ob = Inr ob" "decode_param fmt = Inr fmt" "f \<noteq> []" by simp_all
  from a low have m: "match_path R_export_vdi (segments req) = Some [c, ob, fmt]"
    by (simp del: set_simps)
  from dc d have "decode_params [c, ob, fmt] = Inr [c, ob, fmt]" by simp
  from try_route_run [where env = env and app = app, OF m this] a
  have 2: "try_route env app req R_export_vdi =
        (case wrap (api_export_vdi app x fmt) of (evs, en) \<Rightarrow> Some (Result (Some R_export_vdi) evs en))"
    by (simp add: param_collection_def on_param_def handled_def)
  have "rest_api env app req =
           (case try_route env app req R_export_vdi of
              Some res \<Rightarrow> res
            | None \<Rightarrow>
                (case try_route env app req R_export_vm of
                   Some res \<Rightarrow> res
                 | None \<Rightarrow> Result None [] Unmatched))"
  proof (rule get_two_segments)
    from a c d(3) show "req_method req = GET \<and> authenticate app req = Pass \<and> segments req = [c, f]
          \<and> c \<in> set (map fst collections) \<and> CHR ''%'' \<notin> set f \<and> f \<noteq> []
          \<and> lookup c = Some coll \<and> param_object app (Some coll) f = Next_route"
      by simp
  qed
  with 2 show ?thesis by (simp split: prod.split)
qed

lemma export_vm_matched:
  assumes a: "req_method req = GET \<and> authenticate app req = Pass \<and> segments req = [c, f]
          \<and> c \<in> set [''vms'', ''vm-snapshots'', ''vm-templates''] \<and> CHR ''%'' \<notin> set f
          \<and> split_extension [''xva''] f = Some (ob, ext)
          \<and> lookup c = Some coll
          \<and> param_object app (Some coll) f = Next_route
          \<and> param_object app (Some coll) ob = Next (xo, x)"
  shows "rest_api env app req =
           (case wrap (api_export_vm app x (query req ''compress'')) of
              (evs, en) \<Rightarrow> Result (Some R_export_vm) evs en)"
proof -
  from a pattern_collections(3) have c: "c \<in> set (map fst collections)" by blast
  with collection_ids_plain
  have low: "toLowerCase c = c" and plain: "CHR ''%'' \<notin> set c" by blast+
  from plain have dc: "decode_param c = Inr c" by (rule decode_param_plain)
  from a split_extension_plain [of "[''xva'']" f ob ext]
  have d: "decode_param ob = Inr ob" "f \<noteq> []" by simp_all
  from a low have no: "toLowerCase c \<notin> set [''vdis'', ''vdi-snapshots'']" by auto
  from a no have "match_path R_export_vdi (segments req) = None"
    by (simp del: set_simps)
  then have 1: "try_route env app req R_export_vdi = None"
    by (rule try_route_no_match)
  from a low have m: "match_path R_export_vm (segments req) = Some [c, ob]"
    by (simp del: set_simps)
  from dc d have "decode_params [c, ob] = Inr [c, ob]" by simp
  from try_route_run [where env = env and app = app, OF m this] a
  have 2: "try_route env app req R_export_vm =
        (case wrap (api_export_vm app x (query req ''compress'')) of
           (evs, en) \<Rightarrow> Some (Result (Some R_export_vm) evs en))"
    by (simp add: param_collection_def on_param_def handled_def)
  have "rest_api env app req =
           (case try_route env app req R_export_vdi of
              Some res \<Rightarrow> res
            | None \<Rightarrow>
                (case try_route env app req R_export_vm of
                   Some res \<Rightarrow> res
                 | None \<Rightarrow> Result None [] Unmatched))"
  proof (rule get_two_segments)
    from a c d(2) show "req_method req = GET \<and> authenticate app req = Pass \<and> segments req = [c, f]
          \<and> c \<in> set (map fst collections) \<and> CHR ''%'' \<notin> set f \<and> f \<noteq> []
          \<and> lookup c = Some coll \<and> param_object app (Some coll) f = Next_route"
      by simp
  qed
  with 1 2 show ?thesis by (simp split: prod.split)
qed

text \<open>
  C6. An export handler, once the backend has returned a stream: it sets the header
  \<open>content-disposition: attachment\<close> on the stream's headers, calls \<open>writeHead\<close> with
  the stream's status code, its status message (the empty string where it has none)
  and those headers, before any chunk, and then writes the stream's chunks unchanged,
  in order; it ends the response, or, where the stream fails, destroys it and passes
  the error on, with no second status. On the router, whenever the handler of an
  export route runs, the request is a \<open>GET\<close> of \<open>/c/ob.ext\<close> with \<open>c\<close> a disk
  collection and \<open>ext\<close> one of \<open>vhd\<close>, \<open>raw\<close>, or \<open>c\<close> a VM collection and \<open>ext\<close>
  \<open>xva\<close>, and its events are those of the handler on the object that \<open>ob\<close>, decoded,
  resolves to.
\<close>

theorem export_mirrors_stream:
  "(\<forall>s. exportContent app x fmt = Inr s \<longrightarrow>
      wrap (api_export_vdi app x fmt) =
        (Call_exportContent x fmt
         # Res_writeHead (statusCode s) (case statusMessage s of Some m \<Rightarrow> m | None \<Rightarrow> [])
             ((stream_headers s)(''content-disposition'' \<mapsto> ''attachment''))
         # map Res_write (chunks s)
         @ (case failure s of None \<Rightarrow> [Res_end None] | Some e \<Rightarrow> [Res_destroy]),
         case failure s of None \<Rightarrow> Ended | Some e \<Rightarrow> Forwarded e))
   \<and> (\<forall>s. export app x compress = Inr s \<longrightarrow>
      wrap (api_export_vm app x compress) =
        (Call_export x compress
         # Res_writeHead (statusCode s) (case statusMessage s of Some m \<Rightarrow> m | None \<Rightarrow> [])
             ((stream_headers s)(''content-disposition'' \<mapsto> ''attachment''))
         # map Res_write (chunks s)
         @ (case failure s of None \<Rightarrow> [Res_end None] | Some e \<Rightarrow> [Res_destroy]),
         case failure s of None \<Rightarrow> Ended | Some e \<Rightarrow> Forwarded e))
   \<and> (\<forall>evs en. rest_api env app req = Result (Some R_export_vdi) evs en \<longrightarrow>
        req_method req = GET
        \<and> (\<exists>c f ob ob' fmt coll xo x.
              segments req = [c, f]
              \<and> c \<in> set [''vdis'', ''vdi-snapshots'']
              \<and> split_extension [''vhd'', ''raw''] f = Some (ob, fmt)
              \<and> lookup c = Some coll
              \<and> decode_param ob = Inr ob'
              \<and> param_object app (Some coll) ob' = Next (xo, x)
              \<and> (evs, en) = wrap (api_export_vdi app x fmt)))
   \<and> (\<forall>evs en. rest_api env app req = Result (Some R_export_vm) evs en \<longrightarrow>
        req_method req = GET
        \<and> (\<exists>c f ob ob' ext coll xo x.
              segments req = [c, f]
              \<and> c \<in> set [''vms'', ''vm-snapshots'', ''vm-templates'']
              \<and> split_extension [''xva''] f = Some (ob, ext)
              \<and> lookup c = Some coll
              \<and> decode_param ob = Inr ob'
              \<and> param_object app (Some coll) ob' = Next (xo, x)
              \<and> (evs, en) = wrap (api_export_vm app x (query req ''compress''))))"
proof (intro conjI allI impI)
  fix s
  assume "exportContent app x fmt = Inr s"
  then show "wrap (api_export_vdi app x fmt) =
        (Call_exportContent x fmt
         # Res_writeHead (statusCode s) (case statusMessage s of Some m \<Rightarrow> m | None \<Rightarrow> [])
             ((stream_headers s)(''content-disposition'' \<mapsto> ''attachment''))
         # map Res_write (chunks s)
         @ (case failure s of None \<Rightarrow> [Res_end None] | Some e \<Rightarrow> [Res_destroy]),
         case failure s of None \<Rightarrow> Ended | Some e \<Rightarrow> Forwarded e)"
    by (simp add: api_export_vdi_def send_stream_cases)
next
  fix s
  assume "export app x compress = Inr s"
  then show "wrap (api_export_vm app x compress) =
        (Call_export x compress
         # Res_writeHead (statusCode s) (case statusMessage s of Some m \<Rightarrow> m | None \<Rightarrow> [])
             ((stream_headers s)(''content-disposition'' \<mapsto> ''attachment''))
         # map Res_write (chunks s)
         @ (case failure s of None \<Rightarrow> [Res_end None] | Some e \<Rightarrow> [Res_destroy]),
         case failure s of None \<Rightarrow> Ended | Some e \<Rightarrow> Forwarded e)"
    by (simp add: api_export_vm_def send_stream_cases)
next
  fix evs en
  assume "rest_api env app req = Result (Some R_export_vdi) evs en"
  from export_vdi_handler_runs [OF this]
  show "req_method req = GET"
    and "\<exists>c f ob ob' fmt coll xo x.
              segments req = [c, f]
              \<and> c \<in> set [''vdis'', ''vdi-snapshots'']
              \<and> split_extension [''vhd'', ''raw''] f = Some (ob, fmt)
              \<and> lookup c = Some coll
              \<and> decode_param ob = Inr ob'
              \<and> param_object app (Some coll) ob' = Next (xo, x)
              \<and> (evs, en) = wrap (api_export_vdi app x fmt)"
    by (rule conjunct1, rule conjunct2)
next
  fix evs en
  assume "rest_api env app req = Result (Some R_export_vm) evs en"
  from export_vm_handler_runs [OF this]
  show "req_method req = GET"
    and "\<exists>c f ob ob' ext coll xo x.
              segments req = [c, f]
              \<and> c \<in> set [''vms'', ''vm-snapshots'', ''vm-templates'']
              \<and> split_extension [''xva''] f = Some (ob, ext)
              \<and> lookup c = Some coll
              \<and> decode_param ob = Inr ob'
              \<and> param_object app (Some coll) ob' = Next (xo, x)
              \<and> (evs, en) = wrap (api_export_vm app x (query req ''compress''))"
    by (rule conjunct1, rule conjunct2)
qed

lemma demo_extensions:
  "split_extension [''vhd'', ''raw''] ''vdi-1.vhd'' = Some (''vdi-1'', ''vhd'')"
  "split_extension [''xva''] ''vm-1.xva'' = Some (''vm-1'', ''xva'')"
  by code_simp+

lemma demo_param_object_vdi:
  "param_object demo_app (Some (Descriptor \<lparr>collection_id = ''vdis'', collection_type = ''VDI''\<rparr>)) ''vdi-1''
     = Next (demo_vdi, ''vdi-1'')"
  by (simp add: param_object_def demo_app_def demo_store_def demo_vm_def demo_host_def demo_vdi_def)

lemma demo_param_object_miss:
  "param_object demo_app (Some (Descriptor \<lparr>collection_id = ''vdis'', collection_type = ''VDI''\<rparr>)) ''vdi-1.vhd''
     = Next_route"
  "param_object demo_app (Some (Descriptor \<lparr>collection_id = ''vms'', collection_type = ''VM''\<rparr>)) ''vm-1.xva''
     = Next_route"
  by (simp_all add: param_object_def demo_app_def demo_store_def demo_vm_def demo_host_def
        demo_vdi_def noSuchObject_is_def)

theorem export_mirrors_stream_witness:
  "exportContent demo_app ''vdi-1'' ''vhd'' = Inr demo_stream
   \<and> rest_api demo_env demo_app (demo_request\<lparr>segments := [''vdis'', ''vdi-1.vhd'']\<rparr>)
       = Result (Some R_export_vdi)
           [Call_exportContent ''vdi-1'' ''vhd'',
            Res_writeHead 206 []
              [''content-type'' \<mapsto> ''application/octet-stream'', ''content-disposition'' \<mapsto> ''attachment''],
            Res_write ''ab'', Res_write ''cd'', Res_end None] Ended
   \<and> req_method (demo_request\<lparr>segments := [''vdis'', ''vdi-1.vhd'']\<rparr>) = GET
   \<and> export demo_app ''vm-1'' None = Inr demo_stream
   \<and> rest_api demo_env demo_app (demo_request\<lparr>segments := [''vms'', ''vm-1.xva'']\<rparr>)
       = Result (Some R_export_vm)
           [Call_export ''vm-1'' None,
            Res_writeHead 206 []
              [''content-type'' \<mapsto> ''application/octet-stream'', ''content-disposition'' \<mapsto> ''attachment''],
            Res_write ''ab'', Res_write ''cd'', Res_end None] Ended
   \<and> req_method (demo_request\<lparr>segments := [''vms'', ''vm-1.xva'']\<rparr>) = GET"
proof -
  let ?vdi = "demo_request\<lparr>segments := [''vdis'', ''vdi-1.vhd'']\<rparr>"
  let ?vm = "demo_request\<lparr>segments := [''vms'', ''vm-1.xva'']\<rparr>"
  let ?cvdi = "Descriptor \<lparr>collection_id = ''vdis'', collection_type = ''VDI''\<rparr>"
  let ?cvm = "Descriptor \<lparr>collection_id = ''vms'', collection_type = ''VM''\<rparr>"
  let ?evs = "[Res_writeHead 206 []
              [''content-type'' \<mapsto> ''application/octet-stream'', ''content-disposition'' \<mapsto> ''attachment''],
            Res_write ''ab'', Res_write ''cd'', Res_end None] :: string event list"
  note th_vdi = export_mirrors_stream [of demo_app "''vdi-1''" "''vhd''" None demo_env ?vdi]
  note th_vm = export_mirrors_stream [of demo_app "''vm-1''" "''vhd''" None demo_env ?vm]
  have s1: "exportContent demo_app ''vdi-1'' ''vhd'' = Inr demo_stream"
    by (simp add: demo_app_def)
  have s2: "export demo_app ''vm-1'' None = Inr demo_stream"
    by (simp add: demo_app_def)
  have w1: "wrap (api_export_vdi demo_app ''vdi-1'' ''vhd'') = (Call_exportContent ''vdi-1'' ''vhd'' # ?evs, Ended)"
    using th_vdi [THEN conjunct1, rule_format, OF s1] by (simp add: demo_stream_def)
  have w2: "wrap (api_export_vm demo_app ''vm-1'' None) = (Call_export ''vm-1'' None # ?evs, Ended)"
    using th_vm [THEN conjunct2, THEN conjunct1, rule_format, OF s2] by (simp add: demo_stream_def)
  have hyp_vdi:
    "req_method ?vdi = GET \<and> authenticate demo_app ?vdi = Pass
     \<and> segments ?vdi = [''vdis'', ''vdi-1.vhd'']
     \<and> ''vdis'' \<in> set [''vdis'', ''vdi-snapshots''] \<and> CHR ''%'' \<notin> set ''vdi-1.vhd''
     \<and> split_extension [''vhd'', ''raw''] ''vdi-1.vhd'' = Some (''vdi-1'', ''vhd'')
     \<and> lookup ''vdis'' = Some ?cvdi
     \<and> param_object demo_app (Some ?cvdi) ''vdi-1.vhd'' = Next_route
     \<and> param_object demo_app (Some ?cvdi) ''vdi-1'' = Next (demo_vdi, ''vdi-1'')"
    using lookup_vdis demo_extensions demo_param_object_vdi demo_param_object_miss
    by (simp add: authenticate_def demo_app_def demo_request_def token_def)
  have hyp_vm:
    "req_method ?vm = GET \<and> authenticate demo_app ?vm = Pass
     \<and> segments ?vm = [''vms'', ''vm-1.xva'']
     \<and> ''vms'' \<in> set [''vms'', ''vm-snapshots'', ''vm-templates''] \<and> CHR ''%'' \<notin> set ''vm-1.xva''
     \<and> split_extension [''xva''] ''vm-1.xva'' = Some (''vm-1'', ''xva'')
     \<and> lookup ''vms'' = Some ?cvm
     \<and> param_object demo_app (Some ?cvm) ''vm-1.xva'' = Next_route
     \<and> param_object demo_app (Some ?cvm) ''vm-1'' = Next (demo_vm, ''vm-1'')"
    using lookup_vms demo_extensions demo_param_object_vm demo_param_object_miss
    by (simp add: authenticate_def demo_app_def demo_request_def token_def)
  have q: "query ?vm ''compress'' = None"
    by (simp add: demo_request_def)
  have r1: "rest_api demo_env demo_app ?vdi
              = Result (Some R_export_vdi) (Call_exportContent ''vdi-1'' ''vhd'' # ?evs) Ended"
    using export_vdi_matched [OF hyp_vdi, of demo_env] w1 by simp
  have r2: "rest_api demo_env demo_app ?vm
              = Result (Some R_export_vm) (Call_export ''vm-1'' None # ?evs) Ended"
    using export_vm_matched [OF hyp_vm, of demo_env] w2 q by simp
  have g1: "req_method ?vdi = GET"
    by (rule th_vdi [THEN conjunct2, THEN conjunct2, THEN conjunct1, rule_format, OF r1, THEN conjunct1])
  have g2: "req_method ?vm = GET"
    by (rule th_vm [THEN conjunct2, THEN conjunct2, THEN conjunct2, rule_format, OF r2, THEN conjunct1])
  show ?thesis
    by (intro conjI) (rule s1 r1 g1 s2 r2 g2)+
qed

section \<open>Properties of the list route\<close>

lemma every_two:
  "every [Arg_function p, Arg_function q] = Inr (\<lambda>ob. p ob \<and> q ob)"
  "every [Arg_function p, Arg_undefined] = Inr (\<lambda>ob. p ob \<and> True)"
  "every [Arg_function p, Arg_empty_string] = Inl (Type_error ''not a valid predicate'')"
  by (simp_all add: every_def)

lemma backend_getObjects_sound:
  assumes "backend_getObjects count store p limit = Inr objects"
  shows "\<forall>ob \<in> set objects. ob \<in> set store \<and> p ob"
proof (cases limit)
  case None
  with assms show ?thesis by (auto simp: backend_getObjects_def)
next
  case (Some k)
  with assms have "objects = take (count k) (filter p store)"
    by (simp add: backend_getObjects_def)
  then show ?thesis by (auto dest: in_set_takeD)
qed

lemma api_list_descriptor:
  assumes "handleOptionalUserFilter env (query req ''filter'') = Inr a"
    and "every [Arg_function (isCorrectType c), a] = Inr p"
  shows "api_list env app (Descriptor c) req =
           (case getObjects app p (ifDef (query req ''limit'') (Number env)) of
              Inl e \<Rightarrow> ([], Inl e)
            | Inr objects \<Rightarrow> (sendObjects env objects req, Inr ()))"
  using assms by (simp add: api_list_def)

text \<open>
  On the list route of a collection of the table, with no \<open>filter\<close> parameter
  (the user filter is then always true) or with one that parses: the predicate given to
  the backend's \<open>getObjects\<close> is the conjunction of the membership predicate, the
  object's \<open>type\<close> is the collection's, and of the user filter; hence every object a
  backend returns for that predicate, and so every object listed, has the collection's
  type and satisfies the user filter.
\<close>

lemma list_filter_is_conjunction:
  fixes app :: "('x, 'n) app"
  assumes "query req ''filter'' = None \<and> uf = (\<lambda>ob. True)
           \<or> (\<exists>text. query req ''filter'' = Some text \<and> text \<noteq> [] \<and> parse env text = Inr uf)"
  shows "api_list env app (Descriptor c) req =
           (case getObjects app (\<lambda>ob. ob ''type'' = Some (Str (collection_type c)) \<and> uf ob)
                   (ifDef (query req ''limit'') (Number env)) of
              Inl e \<Rightarrow> ([], Inl e)
            | Inr objects \<Rightarrow> (sendObjects env objects req, Inr ()))
       \<and> (\<forall>count store. getObjects app = backend_getObjects count store \<longrightarrow>
            (\<exists>objects. api_list env app (Descriptor c) req = (sendObjects env objects req, Inr ())
               \<and> (\<forall>ob \<in> set objects.
                     ob \<in> set store \<and> ob ''type'' = Some (Str (collection_type c)) \<and> uf ob)))"
proof -
  let ?p = "\<lambda>ob. ob ''type'' = Some (Str (collection_type c)) \<and> uf ob"
  let ?lim = "ifDef (query req ''limit'') (Number env)"
  from assms obtain a where f: "handleOptionalUserFilter env (query req ''filter'') = Inr a"
    and e: "every [Arg_function (isCorrectType c), a] = Inr ?p"
  proof (elim disjE conjE exE)
    assume "query req ''filter'' = None" "uf = (\<lambda>ob. True)"
    then have "handleOptionalUserFilter env (query req ''filter'') = Inr Arg_undefined"
      and "every [Arg_function (isCorrectType c), Arg_undefined] = Inr ?p"
      by (simp_all add: handleOptionalUserFilter_def every_two isCorrectType_def)
    then show thesis by (rule that)
  next
    fix t
    assume "query req ''filter'' = Some t" "t \<noteq> []" "parse env t = Inr uf"
    then have "handleOptionalUserFilter env (query req ''filter'') = Inr (Arg_function uf)"
      and "every [Arg_function (isCorrectType c), Arg_function uf] = Inr ?p"
      by (simp_all add: handleOptionalUserFilter_def every_two isCorrectType_def)
    then show thesis by (rule that)
  qed
  have eq: "api_list env app (Descriptor c) req =
           (case getObjects app ?p ?lim of
              Inl e \<Rightarrow> ([], Inl e)
            | Inr objects \<Rightarrow> (sendObjects env objects req, Inr ()))"
    by (rule api_list_descriptor [OF f e])
  have "\<exists>objects. api_list env app (Descriptor c) req = (sendObjects env objects req, Inr ())
               \<and> (\<forall>ob \<in> set objects.
                     ob \<in> set store \<and> ob ''type'' = Some (Str (collection_type c)) \<and> uf ob)"
    if b: "getObjects app = backend_getObjects count store" for count store
  proof -
    obtain objects where o: "backend_getObjects count store ?p ?lim = Inr objects"
      by (simp add: backend_getObjects_def)
    from backend_getObjects_sound [OF o] eq b o show ?thesis by auto
  qed
  with eq show ?thesis by blast
qed

lemma api_list_parse_failure:
  assumes "query req ''filter'' = Some t" and "t \<noteq> []" and "parse env t = Inl e"
  shows "wrap (api_list env app coll req) = ([], Forwarded e)"
  using assms by (simp add: api_list_def handleOptionalUserFilter_def wrap_def)

lemma api_list_backend_failure:
  assumes "handleOptionalUserFilter env (query req ''filter'') = Inr a"
    and "every [isCorrectType_of coll, a] = Inr p"
    and "getObjects app p (ifDef (query req ''limit'') (Number env)) = Inl e"
  shows "wrap (api_list env app coll req) = ([], Forwarded e)"
  using assms by (simp add: api_list_def wrap_def)

lemma get_one_segment:
  assumes "req_method req = GET" and "segments req = [c]" and "c \<noteq> []"
    and "decode_param c = Inr c'"
  shows "first_route env app req routes =
           (case run env app req R_list [c'] of
              Some res \<Rightarrow> res
            | None \<Rightarrow> Result None [] Unmatched)"
proof -
  have "try_route env app req R_index = None" "try_route env app req R_get = None"
    "try_route env app req R_patch = None" "try_route env app req R_import = None"
    "try_route env app req R_delete = None" "try_route env app req R_export_vdi = None"
    "try_route env app req R_export_vm = None"
    using assms by (simp_all add: try_route_def)
  moreover from assms have "try_route env app req R_list = run env app req R_list [c']"
    by (simp add: try_route_def)
  ultimately show ?thesis by (simp add: routes_def split: option.split)
qed

lemma list_matched:
  assumes "req_method req = GET" and "authenticate app req = Pass" and "segments req = [c]"
    and "c \<noteq> []" and "decode_param c = Inr c'" and "lookup c' = Some coll"
  shows "rest_api env app req =
           (case wrap (api_list env app coll req) of (evs, en) \<Rightarrow> Result (Some R_list) evs en)"
proof -
  from assms have "run env app req R_list [c'] =
        (case wrap (api_list env app coll req) of (evs, en) \<Rightarrow> Some (Result (Some R_list) evs en))"
    by (simp add: param_collection_def on_param_def handled_def)
  with assms get_one_segment [of req c c' env app] show ?thesis
    by (simp add: rest_api_def split: prod.split)
qed

text \<open>
  C2, as amended. A malformed filter makes the handler of the list route throw before
  any backend call, and \<open>wrap\<close> passes the error to \<open>next\<close>: the module sends no
  response and sets no status of its own. This is the way a failure of the backend's
  \<open>getObjects\<close> leaves the handler as well.
\<close>

theorem malformed_filter_is_forwarded:
  "(\<forall>t e. query req ''filter'' = Some t \<and> t \<noteq> [] \<and> parse env t = Inl e
      \<longrightarrow> wrap (api_list env app coll req) = ([], Forwarded e))
   \<and> (\<forall>a p e. handleOptionalUserFilter env (query req ''filter'') = Inr a
          \<and> every [isCorrectType_of coll, a] = Inr p
          \<and> getObjects app p (ifDef (query req ''limit'') (Number env)) = Inl e
      \<longrightarrow> wrap (api_list env app coll req) = ([], Forwarded e))
   \<and> (\<forall>c c' t e. req_method req = GET \<and> authenticate app req = Pass \<and> segments req = [c]
          \<and> c \<noteq> [] \<and> decode_param c = Inr c' \<and> lookup c' = Some coll
          \<and> query req ''filter'' = Some t \<and> t \<noteq> [] \<and> parse env t = Inl e
      \<longrightarrow> rest_api env app req = Result (Some R_list) [] (Forwarded e))"
proof (intro conjI allI impI)
  fix t e
  assume "query req ''filter'' = Some t \<and> t \<noteq> [] \<and> parse env t = Inl e"
  then show "wrap (api_list env app coll req) = ([], Forwarded e)"
    by (intro api_list_parse_failure [of req t]) simp_all
next
  fix a p e
  assume "handleOptionalUserFilter env (query req ''filter'') = Inr a
          \<and> every [isCorrectType_of coll, a] = Inr p
          \<and> getObjects app p (ifDef (query req ''limit'') (Number env)) = Inl e"
  then show "wrap (api_list env app coll req) = ([], Forwarded e)"
    by (intro api_list_backend_failure [of env req a coll p]) simp_all
next
  fix c c' t e
  assume a: "req_method req = GET \<and> authenticate app req = Pass \<and> segments req = [c]
          \<and> c \<noteq> [] \<and> decode_param c = Inr c' \<and> lookup c' = Some coll
          \<and> query req ''filter'' = Some t \<and> t \<noteq> [] \<and> parse env t = Inl e"
  then have "wrap (api_list env app coll req) = ([], Forwarded e)"
    by (intro api_list_parse_failure [of req t]) simp_all
  moreover from a have "rest_api env app req =
           (case wrap (api_list env app coll req) of (evs, en) \<Rightarrow> Result (Some R_list) evs en)"
    by (intro list_matched [of req app c c']) simp_all
  ultimately show "rest_api env app req = Result (Some R_list) [] (Forwarded e)"
    by simp
qed

theorem malformed_filter_is_forwarded_witness:
  "decode_param ''%76ms'' = Inr ''vms''
   \<and> query (demo_request\<lparr>segments := [''%76ms''], query := [''filter'' \<mapsto> ''name_label:'']\<rparr>) ''filter'' = Some ''name_label:''
   \<and> parse demo_env ''name_label:'' = Inl (Error ''parse error'')
   \<and> rest_api demo_env demo_app (demo_request\<lparr>segments := [''%76ms''], query := [''filter'' \<mapsto> ''name_label:'']\<rparr>)
       = Result (Some R_list) [] (Forwarded (Error ''parse error''))
   \<and> getObjects (demo_app\<lparr>getObjects := \<lambda>p l. Inl (Error ''XAPI is down'')\<rparr>)
        (\<lambda>ob. isCorrectType \<lparr>collection_id = ''vms'', collection_type = ''VM''\<rparr> ob \<and> True) None
       = Inl (Error ''XAPI is down'')
   \<and> wrap (api_list demo_env (demo_app\<lparr>getObjects := \<lambda>p l. Inl (Error ''XAPI is down'')\<rparr>)
              (Descriptor \<lparr>collection_id = ''vms'', collection_type = ''VM''\<rparr>) demo_request)
       = ([], Forwarded (Error ''XAPI is down''))"
proof -
  let ?bad = "demo_request\<lparr>segments := [''%76ms''], query := [''filter'' \<mapsto> ''name_label:'']\<rparr>"
  let ?down = "demo_app\<lparr>getObjects := \<lambda>p l. Inl (Error ''XAPI is down'')\<rparr>"
  let ?c = "\<lparr>collection_id = ''vms'', collection_type = ''VM''\<rparr>"
  let ?p = "\<lambda>ob. isCorrectType ?c ob \<and> True"
  have q: "query ?bad ''filter'' = Some ''name_label:''"
    by simp
  have pe: "parse demo_env ''name_label:'' = Inl (Error ''parse error'')"
    by (simp add: demo_env_def)
  have hyp3: "req_method ?bad = GET \<and> authenticate demo_app ?bad = Pass \<and> segments ?bad = [''%76ms'']
          \<and> ''%76ms'' \<noteq> [] \<and> decode_param ''%76ms'' = Inr ''vms'' \<and> lookup ''vms'' = Some (Descriptor ?c)
          \<and> query ?bad ''filter'' = Some ''name_label:'' \<and> ''name_label:'' \<noteq> []
          \<and> parse demo_env ''name_label:'' = Inl (Error ''parse error'')"
    using lookup_vms pe decode_encoded_vms
    by (simp add: authenticate_def demo_app_def demo_request_def token_def)
  have be: "getObjects ?down ?p None = Inl (Error ''XAPI is down'')"
    by simp
  have hyp2: "handleOptionalUserFilter demo_env (query demo_request ''filter'') = Inr Arg_undefined
          \<and> every [isCorrectType_of (Descriptor ?c), Arg_undefined] = Inr ?p
          \<and> getObjects ?down ?p (ifDef (query demo_request ''limit'') (Number demo_env))
              = Inl (Error ''XAPI is down'')"
    by (simp add: handleOptionalUserFilter_def demo_request_def every_two ifDef_def)
  have 1: "rest_api demo_env demo_app ?bad = Result (Some R_list) [] (Forwarded (Error ''parse error''))"
    by (rule malformed_filter_is_forwarded [of ?bad demo_env demo_app "Descriptor ?c",
               THEN conjunct2, THEN conjunct2, rule_format, OF hyp3])
  have 2: "wrap (api_list demo_env ?down (Descriptor ?c) demo_request)
             = ([], Forwarded (Error ''XAPI is down''))"
    by (rule malformed_filter_is_forwarded [of demo_request demo_env ?down "Descriptor ?c",
               THEN conjunct2, THEN conjunct1, rule_format, OF hyp2])
  show ?thesis
    by (intro conjI) (rule decode_encoded_vms q pe 1 be 2)+
qed

text \<open>
  C2, as stated, fails: for the filter \<open>name_label:\<close>, which the parser refuses, the
  router sends nothing, no status of the 4xx class either, and is left with the parse
  error given to \<open>next\<close>; that is the result of a request whose backend call fails
  with the same error.
\<close>

theorem malformed_filter_counterexample:
  "parse demo_env ''name_label:'' = Inl (Error ''parse error'')
   \<and> rest_api demo_env demo_app (demo_request\<lparr>query := [''filter'' \<mapsto> ''name_label:'']\<rparr>)
       = Result (Some R_list) [] (Forwarded (Error ''parse error''))
   \<and> rest_api demo_env (demo_app\<lparr>getObjects := \<lambda>p l. Inl (Error ''parse error'')\<rparr>) demo_request
       = Result (Some R_list) [] (Forwarded (Error ''parse error''))"
proof -
  let ?bad = "demo_request\<lparr>query := [''filter'' \<mapsto> ''name_label:'']\<rparr>"
  let ?down = "demo_app\<lparr>getObjects := \<lambda>p l. Inl (Error ''parse error'')\<rparr>"
  let ?c = "\<lparr>collection_id = ''vms'', collection_type = ''VM''\<rparr>"
  have pe: "parse demo_env ''name_label:'' = Inl (Error ''parse error'')"
    by (simp add: demo_env_def)
  have "wrap (api_list demo_env demo_app (Descriptor ?c) ?bad) = ([], Forwarded (Error ''parse error''))"
    by (rule api_list_parse_failure [of ?bad "''name_label:''"]) (simp_all add: pe)
  moreover have "rest_api demo_env demo_app ?bad =
           (case wrap (api_list demo_env demo_app (Descriptor ?c) ?bad) of
              (evs, en) \<Rightarrow> Result (Some R_list) evs en)"
    using lookup_vms
    by (intro list_matched [of ?bad demo_app "''vms''" "''vms''"])
       (simp_all add: authenticate_def demo_app_def demo_request_def token_def decode_param_plain)
  ultimately have 1: "rest_api demo_env demo_app ?bad
                        = Result (Some R_list) [] (Forwarded (Error ''parse error''))"
    by simp
  have "wrap (api_list demo_env ?down (Descriptor ?c) demo_request)
          = ([], Forwarded (Error ''parse error''))"
    by (rule api_list_backend_failure
               [of demo_env demo_request Arg_undefined "Descriptor ?c"
                   "\<lambda>ob. isCorrectType ?c ob \<and> True"])
       (simp_all add: handleOptionalUserFilter_def demo_request_def every_two ifDef_def)
  moreover have "rest_api demo_env ?down demo_request =
           (case wrap (api_list demo_env ?down (Descriptor ?c) demo_request) of
              (evs, en) \<Rightarrow> Result (Some R_list) evs en)"
    using lookup_vms
    by (intro list_matched [of demo_request ?down "''vms''" "''vms''"])
       (simp_all add: authenticate_def demo_app_def demo_request_def token_def decode_param_plain)
  ultimately have 2: "rest_api demo_env ?down demo_request
                        = Result (Some R_list) [] (Forwarded (Error ''parse error''))"
    by simp
  show ?thesis
    by (intro conjI) (rule pe 1 2)+
qed

lemma demo_list_every_type:
  assumes "n \<in> set object_prototype_names"
  shows "rest_api demo_env demo_app (demo_request\<lparr>segments := [n]\<rparr>)
           = Result (Some R_list)
               [Res_json [Href (''/rest/v0/'' @ n @ ''/vm-1''), Href (''/rest/v0/'' @ n @ ''/host-1''),
                          Href (''/rest/v0/'' @ n @ ''/vdi-1'')]] Ended"
proof -
  let ?req = "demo_request\<lparr>segments := [n]\<rparr>"
  from assms have plain: "CHR ''%'' \<notin> set n" and ne: "n \<noteq> []"
    by (auto simp: object_prototype_names_def)
  have "\<forall>n \<in> set object_prototype_names. map_of collections n = None"
    by code_simp
  with assms have l: "lookup n = Some (Inherited n)"
    by (simp add: lookup_def)
  have "api_list demo_env demo_app (Inherited n) ?req
          = (sendObjects demo_env demo_store ?req, Inr ())"
    by (simp add: api_list_def handleOptionalUserFilter_def every_def ifDef_def demo_request_def
          demo_app_def backend_getObjects_def)
  moreover from ne have "sendObjects demo_env demo_store ?req
          = ([Res_json [Href (''/rest/v0/'' @ n @ ''/vm-1''), Href (''/rest/v0/'' @ n @ ''/host-1''),
                        Href (''/rest/v0/'' @ n @ ''/vdi-1'')]] :: string event list)"
    by (simp add: sendObjects_def results_def makeUrl_def path_def demo_request_def
          demo_store_def demo_vm_def demo_host_def demo_vdi_def)
  ultimately have w: "wrap (api_list demo_env demo_app (Inherited n) ?req)
          = ([Res_json [Href (''/rest/v0/'' @ n @ ''/vm-1''), Href (''/rest/v0/'' @ n @ ''/host-1''),
                        Href (''/rest/v0/'' @ n @ ''/vdi-1'')]], Ended)"
    by (simp add: wrap_def)
  have "rest_api demo_env demo_app ?req =
           (case wrap (api_list demo_env demo_app (Inherited n) ?req) of
              (evs, en) \<Rightarrow> Result (Some R_list) evs en)"
  proof (rule list_matched [of _ _ n n])
    from plain show "decode_param n = Inr n" by (rule decode_param_plain)
    show "authenticate demo_app ?req = Pass"
      by (simp add: authenticate_def demo_app_def demo_request_def token_def)
  qed (use ne l in \<open>simp_all add: demo_request_def\<close>)
  with w show ?thesis by simp
qed

text \<open>
  C3, on the code. \<open>toString\<close> is not the id of a collection, yet the list route
  answers \<open>GET /toString\<close>: the inherited member in \<open>req.collection\<close> has no
  \<open>isCorrectType\<close>, so \<open>every\<close> is given \<open>undefined\<close> for the membership predicate,
  the predicate passed to \<open>getObjects\<close> holds of every object, and the listing returns
  objects of three types.
\<close>

theorem inherited_name_has_no_membership_predicate:
  "lookup ''toString'' = Some (Inherited ''toString'')
   \<and> isCorrectType_of (Inherited ''toString'') = Arg_undefined
   \<and> handleOptionalUserFilter demo_env (query (demo_request\<lparr>segments := [''toString'']\<rparr>) ''filter'')
       = Inr Arg_undefined
   \<and> every [Arg_undefined, Arg_undefined] = Inr (\<lambda>object. True)
   \<and> rest_api demo_env demo_app (demo_request\<lparr>segments := [''toString'']\<rparr>)
       = Result (Some R_list)
           [Res_json [Href ''/rest/v0/toString/vm-1'', Href ''/rest/v0/toString/host-1'',
                      Href ''/rest/v0/toString/vdi-1'']] Ended
   \<and> map (\<lambda>object. object ''type'') demo_store = [Some (Str ''VM''), Some (Str ''host''), Some (Str ''VDI'')]"
proof -
  have l: "lookup ''toString'' = Some (Inherited ''toString'')"
    by code_simp
  have f: "handleOptionalUserFilter demo_env (query (demo_request\<lparr>segments := [''toString'']\<rparr>) ''filter'')
       = Inr Arg_undefined"
    by (simp add: handleOptionalUserFilter_def demo_request_def)
  have e: "every [Arg_undefined, Arg_undefined] = Inr (\<lambda>object. True)"
    by (simp add: every_def)
  have "''toString'' \<in> set object_prototype_names"
    by (simp add: object_prototype_names_def)
  from demo_list_every_type [OF this]
  have r: "rest_api demo_env demo_app (demo_request\<lparr>segments := [''toString'']\<rparr>)
       = Result (Some R_list)
           [Res_json [Href ''/rest/v0/toString/vm-1'', Href ''/rest/v0/toString/host-1'',
                      Href ''/rest/v0/toString/vdi-1'']] Ended"
    by simp
  have t: "map (\<lambda>object. object ''type'') demo_store = [Some (Str ''VM''), Some (Str ''host''), Some (Str ''VDI'')]"
    by (simp add: demo_store_def demo_vm_def demo_host_def demo_vdi_def)
  show ?thesis
    by (intro conjI) (rule l isCorrectType_of.simps(2) f e r t)+
qed

section \<open>Properties of the PATCH route and of the parameter handlers\<close>

lemma await_array_ignores_rejection:
  "await_value [Rejected e] = Inr [Rejected e] \<and> await_promise (Rejected e :: unit promise) = Inl e"
  by (simp add: await_value_def)

lemma api_patch_status:
  assumes "push_setters app x b [''name_description'', ''name_label''] = (evs, Inr promises)"
  shows "wrap (api_patch app x b) = (evs @ [Res_sendStatus 200 ''OK''], Ended)"
  using assms by (simp add: api_patch_def await_value_def wrap_def sendStatus_200)

lemma api_patch_error_is_thrown:
  assumes "wrap (api_patch app x b) = (evs, Forwarded e)"
  shows "\<exists>key v. key \<in> set [''name_description'', ''name_label'']
           \<and> b key = Some v \<and> set_field app x key v = Inl e"
  using assms
  by (auto simp: api_patch_def await_value_def wrap_def
           split: option.splits sum.splits prod.splits)

lemma patch_matched:
  assumes "req_method req = PATCH" and "authenticate app req = Pass" and "segments req = [c, ob]"
    and "c \<noteq> []" and "ob \<noteq> []" and "decode_param c = Inr c'" and "decode_param ob = Inr ob'"
    and "lookup c' = Some coll"
    and "param_object app (Some coll) ob' = Next (xo, x)" and "body req = Inr b"
  shows "rest_api env app req =
           (case wrap (api_patch app x b) of (evs, en) \<Rightarrow> Result (Some R_patch) evs en)"
proof -
  have "try_route env app req R_index = None" "try_route env app req R_list = None"
    "try_route env app req R_get = None"
    using assms by (simp_all add: try_route_def)
  moreover from assms have "try_route env app req R_patch =
        (case wrap (api_patch app x b) of (evs, en) \<Rightarrow> Some (Result (Some R_patch) evs en))"
    by (simp add: try_route_def param_collection_def on_param_def handled_def)
  ultimately show ?thesis using assms
    by (simp add: rest_api_def routes_def split: prod.split)
qed

text \<open>
  C1, on the code. A PATCH with \<open>name_label\<close> whose backend setter returns a promise
  that is rejected: the handler issues the call, awaits the array of promises, which is
  not a promise, and answers \<open>sendStatus(200)\<close>; the rejection reaches nobody.
\<close>

theorem patch_answers_before_settlement:
  "set_field demo_app ''vm-1'' ''name_label'' (Str ''db'') = Inr (Rejected (Error ''HANDLE_INVALID''))
   \<and> rest_api demo_env demo_app
        (demo_request\<lparr>req_method := PATCH, segments := [''vms'', ''vm-1''],
                       body := Inr [''name_label'' \<mapsto> Str ''db'']\<rparr>)
       = Result (Some R_patch) [Call_set ''vm-1'' ''name_label'' (Str ''db''), Res_sendStatus 200 ''OK''] Ended"
proof -
  let ?req = "demo_request\<lparr>req_method := PATCH, segments := [''vms'', ''vm-1''],
                            body := Inr [''name_label'' \<mapsto> Str ''db'']\<rparr>"
  let ?c = "Descriptor \<lparr>collection_id = ''vms'', collection_type = ''VM''\<rparr>"
  have s: "set_field demo_app ''vm-1'' ''name_label'' (Str ''db'') = Inr (Rejected (Error ''HANDLE_INVALID''))"
    by (simp add: demo_app_def)
  have "push_setters demo_app ''vm-1'' [''name_label'' \<mapsto> Str ''db''] [''name_description'', ''name_label'']
          = ([Call_set ''vm-1'' ''name_label'' (Str ''db'')], Inr [Rejected (Error ''HANDLE_INVALID'')])"
    by (simp add: s)
  from api_patch_status [OF this]
  have w: "wrap (api_patch demo_app ''vm-1'' [''name_label'' \<mapsto> Str ''db''])
             = ([Call_set ''vm-1'' ''name_label'' (Str ''db''), Res_sendStatus 200 ''OK''], Ended)"
    by simp
  have "rest_api demo_env demo_app ?req =
           (case wrap (api_patch demo_app ''vm-1'' [''name_label'' \<mapsto> Str ''db'']) of
              (evs, en) \<Rightarrow> Result (Some R_patch) evs en)"
    using lookup_vms demo_param_object_vm
    by (intro patch_matched [of ?req demo_app "''vms''" "''vm-1''" "''vms''" "''vm-1''" ?c demo_vm])
       (simp_all add: authenticate_def demo_app_def demo_request_def token_def decode_param_plain)
  with w have "rest_api demo_env demo_app ?req
       = Result (Some R_patch) [Call_set ''vm-1'' ''name_label'' (Str ''db''), Res_sendStatus 200 ''OK''] Ended"
    by simp
  with s show ?thesis by (intro conjI)
qed

lemma param_collection_unknown:
  assumes "c \<notin> set (map fst collections)" and "c \<notin> set object_prototype_names"
  shows "param_collection c = Next_route"
  using assms lookup_None [of c] by (simp add: param_collection_def)

lemma param_object_no_such_object:
  assumes "getObject app i (type_of coll) = Inl (No_such_object i (type_of coll))"
  shows "param_object app (Some coll) i = Next_route"
  using assms by (simp add: param_object_def noSuchObject_is_def)

lemma param_object_other_error:
  assumes "getObject app i (type_of coll) = Inl e" and "e \<noteq> No_such_object i (type_of coll)"
  shows "param_object app (Some coll) i = Next_error e"
  using assms by (simp add: param_object_def noSuchObject_is_def)

text \<open>
  C5, on the code. \<open>constructor\<close> is not the id of a collection, yet \<open>collections[id]\<close>
  is not \<open>undefined\<close> for it: the parameter handler goes on with the inherited member
  in \<open>req.collection\<close>, and the list handler, which finds no \<open>isCorrectType\<close> on it,
  lists the objects of every type.
\<close>

theorem inherited_name_is_a_collection:
  "map_of collections ''constructor'' = None
   \<and> param_collection ''constructor'' = Next (Inherited ''constructor'')
   \<and> rest_api demo_env demo_app (demo_request\<lparr>segments := [''constructor'']\<rparr>)
       = Result (Some R_list)
           [Res_json [Href ''/rest/v0/constructor/vm-1'', Href ''/rest/v0/constructor/host-1'',
                      Href ''/rest/v0/constructor/vdi-1'']] Ended"
proof -
  have own: "map_of collections ''constructor'' = None"
    by code_simp
  have l: "lookup ''constructor'' = Some (Inherited ''constructor'')"
    by (simp add: lookup_def own object_prototype_names_def)
  then have p: "param_collection ''constructor'' = Next (Inherited ''constructor'')"
    by (simp add: param_collection_def)
  have "''constructor'' \<in> set object_prototype_names"
    by (simp add: object_prototype_names_def)
  from demo_list_every_type [OF this]
  have "rest_api demo_env demo_app (demo_request\<lparr>segments := [''constructor'']\<rparr>)
       = Result (Some R_list)
           [Res_json [Href ''/rest/v0/constructor/vm-1'', Href ''/rest/v0/constructor/host-1'',
                      Href ''/rest/v0/constructor/vdi-1'']] Ended"
    by simp
  with own p show ?thesis by (intro conjI)
qed

end
